theory Spec2Isabelle
  imports
    Complex_Main
    "HOL-Library.Word"
    "HOL-Library.Signed_Division"
    "HOL-Library.Char_ord"
    "HOL-Library.List_Lexorder"
    "HOL-Library.Multiset"
    "HOL-Library.AList"
begin

unbundle bit_operations_syntax

section \<open>Machine integers of the Go program\<close>

text \<open>
  \<open>uint32\<close> is the result type of \<open>hash.Hash32.Sum32\<close>. \<open>int\<close> is Go's platform
  integer; the service is built for 64-bit targets, where \<open>int\<close> has 64 bits, so it is
  a 64-bit word read in two's complement by \<open>sint\<close>.
\<close>

type_synonym uint32 = "32 word"
type_synonym go_int = "64 word"

text \<open>The run-time panics the assignment code can raise.\<close>

datatype panic = DivideByZero | IndexOutOfRange

text \<open>
  Go's \<open>%\<close> on \<open>int\<close>: the remainder of the division truncated towards zero
  (\<open>smod\<close> on the signed values); a zero divisor is a run-time panic.
\<close>

definition go_rem :: "go_int \<Rightarrow> go_int \<Rightarrow> panic + go_int" where
  "go_rem a b =
     (if b = 0 then Inl DivideByZero else Inr (word_of_int (sint a smod sint b)))"

text \<open>\<open>xs[i]\<close> on a slice: a panic outside \<open>0 \<le> i < len(xs)\<close>.\<close>

definition index_slice :: "'a list \<Rightarrow> go_int \<Rightarrow> panic + 'a" where
  "index_slice xs i =
     (if 0 \<le> sint i \<and> sint i < int (length xs) then Inr (xs ! nat (sint i))
      else Inl IndexOutOfRange)"

section \<open>Assignment: \<open>getPayloadForUser\<close> in main.go\<close>

text \<open>
  \<open>fnv.New32a()\<close>, \<open>h.Write([]byte(userID))\<close>, \<open>h.Sum32()\<close> of the standard library
  package hash/fnv: the state starts at \<open>offset32\<close>, and \<open>Write\<close> runs, for each byte
  \<open>c\<close> in order, \<open>hash ^= c\<close> and then \<open>hash *= prime32\<close> on 32 bits.
\<close>

definition offset32 :: uint32 where
  "offset32 = 0x811c9dc5"

definition prime32 :: uint32 where
  "prime32 = 0x01000193"

definition byte_of :: "char \<Rightarrow> uint32" where
  "byte_of c = word_of_nat (of_char c)"

fun sum32a_Write :: "uint32 \<Rightarrow> string \<Rightarrow> uint32" where
  "sum32a_Write hash [] = hash"
| "sum32a_Write hash (c # data) = sum32a_Write ((hash XOR byte_of c) * prime32) data"

definition Sum32_New32a :: "string \<Rightarrow> uint32" where
  "Sum32_New32a userID = sum32a_Write offset32 userID"

record Payload =
  Name :: string
  Content :: string

text \<open>
  \<open>index := int(h.Sum32()) % len(payloads)\<close>, with the store size \<open>n\<close>: the
  conversion \<open>int(_)\<close> of a \<open>uint32\<close> zero-extends, \<open>len\<close> is an \<open>int\<close>.
\<close>

definition payloadIndex :: "string \<Rightarrow> nat \<Rightarrow> panic + go_int" where
  "payloadIndex userID n = go_rem (ucast (Sum32_New32a userID)) (word_of_nat n)"

definition getPayloadForUser :: "Payload list \<Rightarrow> string \<Rightarrow> panic + Payload" where
  "getPayloadForUser payloads userID =
     (case payloadIndex userID (length payloads) of
        Inl p \<Rightarrow> Inl p
      | Inr index \<Rightarrow> index_slice payloads index)"

subsection \<open>The construction in the words of the specification\<close>

text \<open>
  The specification's sentence read literally: from the offset basis, one
  multiply-then-xor step per byte, then the hash modulo the variant count on
  unsigned numbers.
\<close>

fun spec_hash :: "uint32 \<Rightarrow> string \<Rightarrow> uint32" where
  "spec_hash h [] = h"
| "spec_hash h (c # cs) = spec_hash ((h * prime32) XOR byte_of c) cs"

definition spec_assign :: "string \<Rightarrow> nat \<Rightarrow> nat" where
  "spec_assign key variantCount = unat (spec_hash offset32 key) mod variantCount"

text \<open>
  The same sentence with the step order of FNV-1a: one xor-then-multiply step per
  byte, written as a left fold over the bytes of the key.
\<close>

definition fnv1a_spec :: "string \<Rightarrow> uint32" where
  "fnv1a_spec key = foldl (\<lambda>h c. (h XOR byte_of c) * prime32) offset32 key"

definition assign_spec :: "string \<Rightarrow> nat \<Rightarrow> nat" where
  "assign_spec key variantCount = unat (fnv1a_spec key) mod variantCount"

section \<open>float64 arithmetic\<close>

text \<open>
  The load generator and the verifier compute with \<open>float64\<close>. A finite double is
  kept as the rational number it denotes; every operation computes the exact result
  and rounds it to the nearest double, ties to even, with a 53-bit significand
  (and the fixed spacing \<open>2^-1074\<close> in the subnormal range). Infinities and NaN
  are not values of the model: a division by zero is \<open>None\<close>, and results beyond
  the largest double are outside the model, far from every quantity computed here.
\<close>

type_synonym float64 = rat
type_synonym int64 = "64 word"

text \<open>The number of binary digits of a positive integer.\<close>

function bit_length :: "int \<Rightarrow> nat" where
  "bit_length n = (if n \<le> 0 then 0 else Suc (bit_length (n div 2)))"
  by pat_completeness auto
termination
  by (relation "measure nat") auto

declare bit_length.simps [simp del]

definition pow2 :: "int \<Rightarrow> rat" where
  "pow2 k = (if 0 \<le> k then 2 ^ nat k else 1 / 2 ^ nat (- k))"

text \<open>For \<open>x > 0\<close>, the exponent \<open>e\<close> with \<open>2^e \<le> x < 2^(e+1)\<close>.\<close>

definition floor_log2 :: "rat \<Rightarrow> int" where
  "floor_log2 x =
     (let k = int (bit_length (fst (quotient_of x)))
              - int (bit_length (snd (quotient_of x)))
      in if x < pow2 k then k - 1 else k)"

definition round_half_even :: "rat \<Rightarrow> int" where
  "round_half_even x =
     (let f = \<lfloor>x\<rfloor>; r = x - of_int f
      in if r < 1 / 2 then f
         else if 1 / 2 < r then f + 1
         else if even f then f else f + 1)"

definition f64_round :: "rat \<Rightarrow> float64" where
  "f64_round x =
     (if x = 0 then 0
      else
        (let q = max (floor_log2 \<bar>x\<bar> - 52) (- 1074)
         in sgn x * of_int (round_half_even (\<bar>x\<bar> / pow2 q)) * pow2 q))"

text \<open>
  The conversion \<open>float64(n)\<close> of an integer, \<open>*\<close>, \<open>+\<close> and \<open>/\<close> on \<open>float64\<close>, and a
  decimal constant of the source (\<open>0.90\<close> is \<open>f64_round (90 / 100)\<close>).
\<close>

definition f64_of_int :: "int \<Rightarrow> float64" where
  "f64_of_int n = f64_round (of_int n)"

definition f64_mul :: "float64 \<Rightarrow> float64 \<Rightarrow> float64" where
  "f64_mul a b = f64_round (a * b)"

definition f64_add :: "float64 \<Rightarrow> float64 \<Rightarrow> float64" where
  "f64_add a b = f64_round (a + b)"

definition f64_quot :: "float64 \<Rightarrow> float64 \<Rightarrow> float64" where
  "f64_quot a b = f64_round (a / b)"

definition f64_div :: "float64 \<Rightarrow> float64 \<Rightarrow> float64 option" where
  "f64_div a b = (if b = 0 then None else Some (f64_quot a b))"

text \<open>
  The conversion \<open>int(x)\<close> of a \<open>float64\<close>: the fraction is discarded (truncation
  towards zero); when the result does not fit the integer type, Go leaves the value
  to the implementation, which is \<open>None\<close> here.
\<close>

definition f64_to_int :: "float64 \<Rightarrow> int option" where
  "f64_to_int x =
     (let t = (if 0 \<le> x then \<lfloor>x\<rfloor> else \<lceil>x\<rceil>)
      in if - (2 ^ 63) \<le> t \<and> t < 2 ^ 63 then Some t else None)"

text \<open>
  \<open>Duration.Seconds\<close> of package time, on a duration in nanoseconds:
  \<open>float64(d / Second) + float64(d % Second) / 1e9\<close>.
\<close>

definition Seconds :: "int \<Rightarrow> float64" where
  "Seconds d =
     f64_add (f64_of_int (d sdiv 1000000000))
       (f64_quot (f64_of_int (d smod 1000000000)) (f64_round 1000000000))"

section \<open>JSON documents\<close>

text \<open>
  The values of encoding/json. The decoder and the encoder of the standard library
  are not part of the repository: the loader and the handler take them as
  parameters, \<open>parse\<close> (the syntax tree of a document, \<open>None\<close> when the scanner
  of the library rejects the bytes) and \<open>marshal\<close> (\<open>json.Marshal\<close> of a decoded
  value, \<open>None\<close> on an error).
\<close>

datatype json =
    JNull
  | JBool bool
  | JNumber rat
  | JString string
  | JArray "json list"
  | JObject "(string \<times> json) list"

text \<open>
  A number decoded into \<open>interface{}\<close> goes through \<open>strconv.ParseFloat\<close>, which
  fails when the literal rounds to an infinity, that is from the midpoint
  \<open>2^1024 - 2^970\<close> between the largest double and \<open>2^1024\<close> on; the decoder then
  reports an error for the document. \<open>JNumber\<close> holds the exact value of the
  literal.
\<close>

definition fits_float64 :: "rat \<Rightarrow> bool" where
  "fits_float64 r = (\<bar>r\<bar> < 2 ^ 1024 - 2 ^ 970)"

fun numbers_fit :: "json \<Rightarrow> bool" where
  "numbers_fit (JNumber r) = fits_float64 r"
| "numbers_fit (JArray vs) = (\<forall>v \<in> set vs. numbers_fit v)"
| "numbers_fit (JObject members) = (\<forall>kv \<in> set members. numbers_fit (snd kv))"
| "numbers_fit JNull = True"
| "numbers_fit (JBool b) = True"
| "numbers_fit (JString s) = True"

text \<open>
  \<open>json.Unmarshal(content, &parsed)\<close> with \<open>var parsed map[string]interface{}\<close>:
  an object whose numbers all fit \<open>float64\<close> fills the map, \<open>null\<close> leaves it nil
  without an error, every other document is an error (a syntax error, a value that
  does not fit the map type, or a number out of range inside the object). The map
  is kept as the member list of the object.
\<close>

definition Unmarshal_map ::
  "(string \<Rightarrow> json option) \<Rightarrow> string \<Rightarrow> (string \<times> json) list option" where
  "Unmarshal_map parse content =
     (case parse content of
        None \<Rightarrow> None
      | Some (JObject members) \<Rightarrow>
          if numbers_fit (JObject members) then Some members else None
      | Some JNull \<Rightarrow> Some []
      | Some _ \<Rightarrow> None)"

text \<open>
  \<open>parsed["payloads"].([]interface{})\<close>: the member decoded last wins, and the type
  assertion holds for arrays only.
\<close>

definition payloads_array :: "(string \<times> json) list \<Rightarrow> json list option" where
  "payloads_array parsed =
     (case map_of (rev parsed) ''payloads'' of
        Some (JArray payloadsArray) \<Rightarrow> Some payloadsArray
      | _ \<Rightarrow> None)"

section \<open>Payload store: \<open>init\<close> in main.go\<close>

text \<open>
  What \<open>os.ReadDir\<close> returns for an entry, as far as \<open>init\<close> reads it. The file
  system is an input: \<open>ReadDir\<close> is the entry list or \<open>None\<close> on an error, and
  \<open>ReadFile\<close> maps a path to the content or \<open>None\<close> on an error.
\<close>

record DirEntry =
  entry_Name :: string
  IsDir :: bool

definition HasSuffix :: "string \<Rightarrow> string \<Rightarrow> bool" where
  "HasSuffix s suffix =
     (length suffix \<le> length s \<and> drop (length s - length suffix) s = suffix)"

text \<open>The verb \<open>%d\<close> of \<open>fmt.Sprintf\<close> on an index.\<close>

fun show_nat :: "nat \<Rightarrow> string" where
  "show_nat n =
     (if n < 10 then [''0123456789'' ! n]
      else show_nat (n div 10) @ [''0123456789'' ! (n mod 10)])"

declare show_nat.simps [simp del]

text \<open>The lines \<open>init\<close> writes with \<open>log.Printf\<close>, in order.\<close>

datatype log_line =
    WarnLoad string
  | WarnInvalidJSON string
  | WarnMarshal nat string
  | FoundArray string nat
  | LoadedFrom nat string
  | LoadedPayload string nat
  | LoadedTotal nat

text \<open>The state of the loading loop: the global \<open>payloads\<close> and the log.\<close>

type_synonym loader = "Payload list \<times> log_line list"

text \<open>The inner loop \<open>for i, item := range payloadsArray\<close>.\<close>

fun load_items ::
  "(json \<Rightarrow> string option) \<Rightarrow> string \<Rightarrow> nat \<Rightarrow> json list \<Rightarrow> loader \<Rightarrow> loader" where
  "load_items marshal name i [] st = st"
| "load_items marshal name i (item # items) st =
     (case marshal item of
        None \<Rightarrow> load_items marshal name (Suc i) items (fst st, snd st @ [WarnMarshal i name])
      | Some itemBytes \<Rightarrow>
          load_items marshal name (Suc i) items
            (fst st @ [\<lparr>Name = name @ ''['' @ show_nat i @ '']'', Content = itemBytes\<rparr>],
             snd st))"

text \<open>The body of the outer loop \<open>for _, name := range payloadNames\<close>.\<close>

definition load_file ::
  "(string \<Rightarrow> json option) \<Rightarrow> (json \<Rightarrow> string option) \<Rightarrow> (string \<Rightarrow> string option) \<Rightarrow>
     loader \<Rightarrow> string \<Rightarrow> loader" where
  "load_file parse marshal ReadFile st name =
     (let payloadPath = ''payloads/'' @ name in
      case ReadFile payloadPath of
        None \<Rightarrow> (fst st, snd st @ [WarnLoad payloadPath])
      | Some content \<Rightarrow>
          (case Unmarshal_map parse content of
             None \<Rightarrow> (fst st, snd st @ [WarnInvalidJSON payloadPath])
           | Some parsed \<Rightarrow>
               (case payloads_array parsed of
                  Some payloadsArray \<Rightarrow>
                    (let st' = load_items marshal name 0 payloadsArray
                                 (fst st, snd st @ [FoundArray name (length payloadsArray)])
                     in (fst st', snd st' @ [LoadedFrom (length payloadsArray) name]))
                | None \<Rightarrow>
                    (fst st @ [\<lparr>Name = name, Content = content\<rparr>],
                     snd st @ [LoadedPayload name (length content)]))))"

text \<open>
  The names kept by the first loop, after \<open>sort.Strings\<close> (bytewise lexicographic
  order, the order of \<open>string\<close> here).
\<close>

definition payloadNames :: "DirEntry list \<Rightarrow> string list" where
  "payloadNames entries =
     sort (map entry_Name
       (filter (\<lambda>entry. \<not> IsDir entry \<and> HasSuffix (entry_Name entry) ''.json'') entries))"

definition load_all ::
  "(string \<Rightarrow> json option) \<Rightarrow> (json \<Rightarrow> string option) \<Rightarrow> (string \<Rightarrow> string option) \<Rightarrow>
     DirEntry list \<Rightarrow> loader" where
  "load_all parse marshal ReadFile entries =
     foldl (load_file parse marshal ReadFile) ([], []) (payloadNames entries)"

text \<open>
  The two outcomes of the loop body that the facts below name: the file is skipped
  with the invalid-JSON warning, or its raw content becomes one payload named
  after the file.
\<close>

definition skip_invalid :: "loader \<Rightarrow> string \<Rightarrow> loader" where
  "skip_invalid st name = (fst st, snd st @ [WarnInvalidJSON (''payloads/'' @ name)])"

definition take_whole :: "loader \<Rightarrow> string \<Rightarrow> string \<Rightarrow> loader" where
  "take_whole st name content =
     (fst st @ [\<lparr>Name = name, Content = content\<rparr>],
      snd st @ [LoadedPayload name (length content)])"

text \<open>
  \<open>init\<close>: \<open>log.Fatalf\<close> and \<open>log.Fatal\<close> end the process, otherwise the store is
  the loaded list.
\<close>

datatype boot = Fatal string | Booted "Payload list" "log_line list"

definition init ::
  "(string \<Rightarrow> json option) \<Rightarrow> (json \<Rightarrow> string option) \<Rightarrow> DirEntry list option \<Rightarrow>
     (string \<Rightarrow> string option) \<Rightarrow> boot" where
  "init parse marshal ReadDir ReadFile =
     (case ReadDir of
        None \<Rightarrow> Fatal ''Failed to read payloads directory''
      | Some entries \<Rightarrow>
          (let st = load_all parse marshal ReadFile entries in
           if length (fst st) = 0 then Fatal ''No payloads loaded''
           else Booted (fst st) (snd st @ [LoadedTotal (length (fst st))])))"

text \<open>
  The process: \<open>main\<close>, which registers the handlers and listens, runs only after
  \<open>init\<close> has returned; a fatal log line exits with status 1 before that.
\<close>

datatype process = Exited nat | Serving "Payload list"

definition start ::
  "(string \<Rightarrow> json option) \<Rightarrow> (json \<Rightarrow> string option) \<Rightarrow> DirEntry list option \<Rightarrow>
     (string \<Rightarrow> string option) \<Rightarrow> process" where
  "start parse marshal ReadDir ReadFile =
     (case init parse marshal ReadDir ReadFile of
        Fatal msg \<Rightarrow> Exited 1
      | Booted payloads lg \<Rightarrow> Serving payloads)"

section \<open>Request handler: \<open>experiment\<close> in main.go\<close>

text \<open>
  \<open>model.Request\<close> and \<open>model.Response\<close>; the \<open>Payload\<close> field of the response is a
  \<open>json.RawMessage\<close>. Of the request context the handler reads the outcome of
  \<open>c.BodyParser(&req)\<close> only (\<open>None\<close> for an error; a missing \<open>userId\<close> leaves the
  field empty); everything else about a request lives in the extension of the
  record.
\<close>

datatype RawMessage = RawMessage string

record Request =
  UserID :: string

record Response =
  ExperimentID :: string
  SelectedPayloadName :: string
  Payload :: RawMessage

record Ctx =
  BodyParser :: "Request option"

datatype failure = Panicked panic | MarshalFailed

text \<open>
  \<open>json.Marshal\<close> of a \<open>model.Response\<close>, as the document it writes: the two string
  fields become JSON strings, the raw message is checked and embedded as the value
  it denotes; a raw message that is not valid JSON is an error.
\<close>

definition Marshal_Response :: "(string \<Rightarrow> json option) \<Rightarrow> Response \<Rightarrow> json option" where
  "Marshal_Response parse response =
     (case Payload response of
        RawMessage raw \<Rightarrow>
          (case parse raw of
             None \<Rightarrow> None
           | Some v \<Rightarrow>
               Some (JObject
                 [(''experimentId'', JString (ExperimentID response)),
                  (''selectedPayloadName'', JString (SelectedPayloadName response)),
                  (''payload'', v)])))"

definition error_body :: "string \<Rightarrow> json" where
  "error_body msg = JObject [(''error'', JString msg)]"

text \<open>
  The handler (named \<open>experiment\<close> in the source): the reply is the status with the
  body, or the failure that ends the handler (a panic, or the error of \<open>c.JSON\<close>).
\<close>

definition experiment_handler ::
  "(string \<Rightarrow> json option) \<Rightarrow> Payload list \<Rightarrow> 'a Ctx_scheme \<Rightarrow> failure + (nat \<times> json)" where
  "experiment_handler parse payloads c =
     (case BodyParser c of
        None \<Rightarrow> Inr (400, error_body ''Invalid request body'')
      | Some req \<Rightarrow>
          if UserID req = [] then Inr (400, error_body ''userId is required'')
          else
            (case getPayloadForUser payloads (UserID req) of
               Inl p \<Rightarrow> Inl (Panicked p)
             | Inr payload \<Rightarrow>
                 (case Marshal_Response parse
                         \<lparr>ExperimentID = ''exp-localization-v1'',
                          SelectedPayloadName = Name payload,
                          Payload = RawMessage (Content payload)\<rparr> of
                    None \<Rightarrow> Inl MarshalFailed
                  | Some js \<Rightarrow> Inr (200, js))))"

text \<open>What a client reads from a reply: the status, and the selected name.\<close>

definition status_of :: "failure + (nat \<times> json) \<Rightarrow> nat option" where
  "status_of r = (case r of Inr (st, b) \<Rightarrow> Some st | Inl f \<Rightarrow> None)"

definition selectedPayloadName_of :: "failure + (nat \<times> json) \<Rightarrow> string option" where
  "selectedPayloadName_of r =
     (case r of
        Inr (st, JObject members) \<Rightarrow>
          (case map_of members ''selectedPayloadName'' of
             Some (JString s) \<Rightarrow> Some s
           | _ \<Rightarrow> None)
      | _ \<Rightarrow> None)"

text \<open>
  A run of the service on one request after the other. The package variable
  \<open>payloads\<close> is the only state one call of the handler could leave to the next;
  the run returns it with the replies.
\<close>

fun serve ::
  "(string \<Rightarrow> json option) \<Rightarrow> Payload list \<Rightarrow> 'a Ctx_scheme list \<Rightarrow>
     (failure + (nat \<times> json)) list \<times> Payload list" where
  "serve parse payloads [] = ([], payloads)"
| "serve parse payloads (c # cs) =
     (let reply = experiment_handler parse payloads c;
          rest = serve parse payloads cs
      in (reply # fst rest, snd rest))"

subsection \<open>A small payload directory for concrete runs\<close>

text \<open>
  Five files and the behaviour of the JSON library on exactly their contents:
  \<open>a.json\<close> holds the array \<open>[1]\<close>, \<open>b.json\<close> the object \<open>{}\<close>, \<open>c.json\<close> the
  broken text \<open>{\<close>, \<open>n.json\<close> the document \<open>null\<close>, and \<open>x.json\<close> an object
  with the member \<open>x\<close> set to \<open>1e999\<close>, a number beyond \<open>float64\<close>.
\<close>

definition huge_number :: rat where
  "huge_number = 10 ^ 999"

definition big_number_document :: string where
  "big_number_document = ''{'' @ [CHR 0x22] @ ''x'' @ [CHR 0x22] @ '':1e999}''"

definition sample_parse :: "string \<Rightarrow> json option" where
  "sample_parse s =
     (if s = ''{}'' then Some (JObject [])
      else if s = ''[1]'' then Some (JArray [JNumber 1])
      else if s = ''null'' then Some JNull
      else if s = big_number_document then Some (JObject [(''x'', JNumber huge_number)])
      else None)"

definition sample_marshal :: "json \<Rightarrow> string option" where
  "sample_marshal v = (if v = JObject [] then Some ''{}'' else None)"

definition sample_ReadFile :: "string \<Rightarrow> string option" where
  "sample_ReadFile path =
     (if path = ''payloads/a.json'' then Some ''[1]''
      else if path = ''payloads/b.json'' then Some ''{}''
      else if path = ''payloads/c.json'' then Some ''{''
      else if path = ''payloads/n.json'' then Some ''null''
      else if path = ''payloads/x.json'' then Some big_number_document
      else None)"

section \<open>Load generator: cmd/loadtest/main.go\<close>

text \<open>
  \<open>calculatePercentile\<close>. The index is an \<open>int\<close>; it is kept as an integer, since it
  lies within the range of the conversion and the only arithmetic on it is
  \<open>len - 1\<close>.
\<close>

datatype percentile_failure = ConversionUndefined | IndexPanic panic

definition calculatePercentile :: "int64 list \<Rightarrow> float64 \<Rightarrow> percentile_failure + int64" where
  "calculatePercentile sortedLatencies percentile =
     (if length sortedLatencies = 0 then Inr 0
      else
        (case f64_to_int (f64_mul (f64_of_int (int (length sortedLatencies))) percentile) of
           None \<Rightarrow> Inl ConversionUndefined
         | Some index0 \<Rightarrow>
             (let index = (if index0 \<ge> int (length sortedLatencies)
                           then int (length sortedLatencies) - 1 else index0)
              in if 0 \<le> index \<and> index < int (length sortedLatencies)
                 then Inr (sortedLatencies ! nat index)
                 else Inl (IndexPanic IndexOutOfRange))))"

text \<open>
  \<open>Stats\<close>: the atomic counters (as integers: they count requests of one run, far
  below \<open>2^63\<close>) and the latency slices guarded by the mutex.
\<close>

record Stats =
  totalRequests :: int
  successRequests :: int
  failedRequests :: int
  fastRequests :: int
  slowRequests :: int
  fastLatencies :: "int64 list"
  slowLatencies :: "int64 list"

text \<open>
  What the network gives one request: \<open>client.Post\<close> fails, or a response arrives
  with its status code, whether the body was read to the end without an error, and
  the latency measured in milliseconds.
\<close>

datatype http_outcome = PostFailed | Received nat bool int64

definition makeFastRequest :: "http_outcome \<Rightarrow> Stats \<Rightarrow> Stats" where
  "makeFastRequest out stats =
     (let st = stats\<lparr>totalRequests := totalRequests stats + 1\<rparr> in
      case out of
        PostFailed \<Rightarrow> st\<lparr>failedRequests := failedRequests st + 1\<rparr>
      | Received status copied latency \<Rightarrow>
          if status = 200 then
            (if copied then
               st\<lparr>successRequests := successRequests st + 1,
                  fastLatencies := fastLatencies st @ [latency]\<rparr>
             else st\<lparr>failedRequests := failedRequests st + 1\<rparr>)
          else st\<lparr>failedRequests := failedRequests st + 1\<rparr>)"

definition makeSlowRequest :: "http_outcome \<Rightarrow> Stats \<Rightarrow> Stats" where
  "makeSlowRequest out stats =
     (let st = stats\<lparr>totalRequests := totalRequests stats + 1\<rparr> in
      case out of
        PostFailed \<Rightarrow> st\<lparr>failedRequests := failedRequests st + 1\<rparr>
      | Received status copied latency \<Rightarrow>
          if status = 200 then
            (if copied then
               st\<lparr>successRequests := successRequests st + 1,
                  slowLatencies := slowLatencies st @ [latency]\<rparr>
             else st\<lparr>failedRequests := failedRequests st + 1\<rparr>)
          else st\<lparr>failedRequests := failedRequests st + 1\<rparr>)"

text \<open>
  One iteration of the loop of \<open>runFastClient\<close> or \<open>runSlowClient\<close> that is not
  cancelled: the request, then the class counter.
\<close>

datatype client = FastClient | SlowClient

fun client_iteration :: "Stats \<Rightarrow> client \<times> http_outcome \<Rightarrow> Stats" where
  "client_iteration stats (FastClient, out) =
     (let st = makeFastRequest out stats in st\<lparr>fastRequests := fastRequests st + 1\<rparr>)"
| "client_iteration stats (SlowClient, out) =
     (let st = makeSlowRequest out stats in st\<lparr>slowRequests := slowRequests st + 1\<rparr>)"

definition new_Stats :: Stats where
  "new_Stats = \<lparr>totalRequests = 0, successRequests = 0, failedRequests = 0,
      fastRequests = 0, slowRequests = 0, fastLatencies = [], slowLatencies = []\<rparr>"

text \<open>
  A run, after \<open>wg.Wait()\<close>: the iterations all clients have made, in the order in
  which their updates took effect. Each update is atomic or under the mutex, so
  the counters at the end are those of this sequential run.
\<close>

definition runLoadTest :: "(client \<times> http_outcome) list \<Rightarrow> Stats" where
  "runLoadTest events = foldl client_iteration new_Stats events"

text \<open>
  The section \<open>Throughput:\<close> of \<open>printResults\<close>: the lines printed, each with its
  label and the value (\<open>None\<close> for a division by a zero duration).
\<close>

definition throughput_lines :: "Stats \<Rightarrow> int \<Rightarrow> (string \<times> float64 option) list" where
  "throughput_lines stats duration =
     (let rps = f64_div (f64_of_int (successRequests stats)) (Seconds duration);
          fastRps = f64_div (f64_of_int (fastRequests stats)) (Seconds duration);
          slowRps = f64_div (f64_of_int (slowRequests stats)) (Seconds duration)
      in [(''Overall'', rps)]
         @ (if length (fastLatencies stats) > 0 then [(''Fast Clients'', fastRps)] else [])
         @ (if length (slowLatencies stats) > 0 then [(''Slow Clients'', slowRps)] else []))"

text \<open>Counts over the requests of a run.\<close>

fun succeeded :: "client \<times> http_outcome \<Rightarrow> bool" where
  "succeeded (c, Received status copied latency) = (status = 200 \<and> copied)"
| "succeeded (c, PostFailed) = False"

definition issued :: "client \<Rightarrow> (client \<times> http_outcome) list \<Rightarrow> nat" where
  "issued c events = length (filter (\<lambda>e. fst e = c) events)"

definition successes :: "(client \<times> http_outcome) list \<Rightarrow> nat" where
  "successes events = length (filter succeeded events)"

definition class_successes :: "client \<Rightarrow> (client \<times> http_outcome) list \<Rightarrow> nat" where
  "class_successes c events = length (filter (\<lambda>e. fst e = c \<and> succeeded e) events)"

text \<open>A run of one fast client: a request that succeeds, then one that fails.\<close>

definition sample_run :: "(client \<times> http_outcome) list" where
  "sample_run = [(FastClient, Received 200 True 10), (FastClient, PostFailed)]"

section \<open>Consistency verifier: cmd/allocationtest/main.go\<close>

text \<open>
  A Go map is kept as an association list with distinct keys: an assignment to a
  new key appends an entry, an assignment to a present key replaces its value.
  \<open>counts\<close> is \<open>map[string]int\<close>, \<open>userPayloads\<close> is \<open>map[string]map[string]int\<close>.
\<close>

type_synonym counts = "(string \<times> int) list"
type_synonym userPayloads = "(string \<times> counts) list"

text \<open>\<open>m[k]\<close> (zero for a missing key) and \<open>m[k]++\<close>.\<close>

definition lookup_count :: "counts \<Rightarrow> string \<Rightarrow> int" where
  "lookup_count m k = (case map_of m k of None \<Rightarrow> 0 | Some n \<Rightarrow> n)"

definition incr :: "string \<Rightarrow> counts \<Rightarrow> counts" where
  "incr k m = AList.update k (lookup_count m k + 1) m"

text \<open>
  What the workers of \<open>runAllocationTest\<close> share: the map under the mutex and the
  three atomic counters (as integers, far below \<open>2^63\<close>).
\<close>

record AllocationRun =
  run_userPayloads :: userPayloads
  run_totalRequests :: int
  run_successRequests :: int
  run_failedRequests :: int

text \<open>
  One work item taken from the channel, with the outcome of \<open>makeRequest\<close> for it:
  the selected payload name, or \<open>None\<close> for an error (transport failure, a status
  other than 200, an unreadable or undecodable body).
\<close>

definition worker_step :: "AllocationRun \<Rightarrow> string \<times> string option \<Rightarrow> AllocationRun" where
  "worker_step run w =
     (let st = run\<lparr>run_totalRequests := run_totalRequests run + 1\<rparr> in
      case snd w of
        None \<Rightarrow> st\<lparr>run_failedRequests := run_failedRequests st + 1\<rparr>
      | Some payload \<Rightarrow>
          st\<lparr>run_successRequests := run_successRequests st + 1,
             run_userPayloads :=
               AList.update (fst w)
                 (incr payload
                    (case map_of (run_userPayloads st) (fst w) of
                       None \<Rightarrow> [] | Some m \<Rightarrow> m))
                 (run_userPayloads st)\<rparr>)"

definition new_AllocationRun :: AllocationRun where
  "new_AllocationRun = \<lparr>run_userPayloads = [], run_totalRequests = 0,
      run_successRequests = 0, run_failedRequests = 0\<rparr>"

text \<open>
  \<open>UserAllocation\<close> and \<open>TestResults\<close>. The field \<open>UserID\<close> of \<open>UserAllocation\<close> is
  \<open>alloc_UserID\<close> here, the name \<open>UserID\<close> being the field of \<open>Request\<close>; durations
  are in nanoseconds.
\<close>

record UserAllocation =
  alloc_UserID :: string
  PayloadName :: string
  RequestCount :: int
  Consistent :: bool

record TestResults =
  TotalUsers :: int
  TotalRequests :: int
  SuccessfulRequests :: int
  FailedRequests :: int
  ConsistentUsers :: int
  InconsistentUsers :: int
  PayloadDistribution :: counts
  UserAllocations :: "UserAllocation list"
  InconsistentDetails :: "string list"
  TestDuration :: int
  RequestsPerSecond :: float64
  AllocationConsistency :: float64

text \<open>The verb \<open>%d\<close> on a count, and \<open>strings.Join\<close>.\<close>

definition show_int :: "int \<Rightarrow> string" where
  "show_int n = (if n < 0 then ''-'' @ show_nat (nat (- n)) else show_nat (nat n))"

fun Join :: "string list \<Rightarrow> string \<Rightarrow> string" where
  "Join [] sep = []"
| "Join [s] sep = s"
| "Join (s # t # ss) sep = s @ sep @ Join (t # ss) sep"

text \<open>
  The loop that picks the most frequent payload of a user: a later entry replaces
  the current one only with a strictly larger count.
\<close>

definition primaryPayload_of :: "counts \<Rightarrow> string" where
  "primaryPayload_of payloads =
     fst (foldl (\<lambda>(primaryPayload, maxCount) (payload, count).
                   if count > maxCount then (payload, count) else (primaryPayload, maxCount))
            ([], 0) payloads)"

text \<open>The body of the loop \<open>for userID, payloads := range userPayloads\<close>.\<close>

definition analyze_user :: "TestResults \<Rightarrow> string \<times> counts \<Rightarrow> TestResults" where
  "analyze_user results entry =
     (let userID = fst entry; payloads = snd entry;
          totalForUser = foldl (\<lambda>total (payload, count). total + count) 0 payloads;
          consistent = (length payloads = 1);
          primaryPayload = primaryPayload_of payloads;
          allocation = \<lparr>alloc_UserID = userID, PayloadName = primaryPayload,
                         RequestCount = totalForUser, Consistent = consistent\<rparr>;
          results1 = results\<lparr>PayloadDistribution := incr primaryPayload (PayloadDistribution results),
                               UserAllocations := UserAllocations results @ [allocation]\<rparr>
      in if consistent
         then results1\<lparr>ConsistentUsers := ConsistentUsers results1 + 1\<rparr>
         else results1\<lparr>InconsistentUsers := InconsistentUsers results1 + 1,
                 InconsistentDetails := InconsistentDetails results1 @
                   [''User '' @ userID @ '' received multiple payloads: '' @
                    Join (map (\<lambda>(payload, count). payload @ ''('' @ show_int count @ '')'') payloads)
                      '', '']\<rparr>)"

text \<open>
  \<open>analyzeResults\<close>, on the entries of the map in the order in which the range
  loop visits them.
\<close>

definition analyzeResults ::
  "userPayloads \<Rightarrow> int \<Rightarrow> int \<Rightarrow> int \<Rightarrow> int \<Rightarrow> int \<Rightarrow> TestResults" where
  "analyzeResults userPayloads requestsPerUser duration totalReqs successReqs failedReqs =
     (let results0 = \<lparr>TotalUsers = int (length userPayloads), TotalRequests = totalReqs,
            SuccessfulRequests = successReqs, FailedRequests = failedReqs,
            ConsistentUsers = 0, InconsistentUsers = 0, PayloadDistribution = [],
            UserAllocations = [], InconsistentDetails = [], TestDuration = duration,
            RequestsPerSecond = 0, AllocationConsistency = 0\<rparr>;
          results1 = (if Seconds duration > 0
                      then results0\<lparr>RequestsPerSecond :=
                             f64_quot (f64_of_int successReqs) (Seconds duration)\<rparr>
                      else results0);
          results2 = foldl analyze_user results1 userPayloads
      in if TotalUsers results2 > 0
         then results2\<lparr>AllocationConsistency :=
                f64_mul (f64_quot (f64_of_int (ConsistentUsers results2))
                                  (f64_of_int (TotalUsers results2)))
                        (f64_round 100)\<rparr>
         else results2)"

text \<open>
  \<open>runAllocationTest\<close> after \<open>wg.Wait()\<close>: the work items in the order in which
  their updates took effect, then the analysis. Go does not fix the order in which
  a range loop visits a map: \<open>visit\<close> is that order, any rearrangement of the
  entries.
\<close>

definition runAllocationTest ::
  "(userPayloads \<Rightarrow> userPayloads) \<Rightarrow> (string \<times> string option) list \<Rightarrow> int \<Rightarrow> int \<Rightarrow> TestResults" where
  "runAllocationTest visit work requestsPerUser duration =
     (let run = foldl worker_step new_AllocationRun work
      in analyzeResults (visit (run_userPayloads run)) requestsPerUser duration
           (run_totalRequests run) (run_successRequests run) (run_failedRequests run))"

text \<open>
  Three users with two requests each: \<open>u1\<close> is served \<open>a.json\<close> twice, both
  requests of \<open>u2\<close> fail, \<open>u3\<close> is served two different payloads.
\<close>

definition sample_work :: "(string \<times> string option) list" where
  "sample_work = [(''u1'', Some ''a.json''), (''u2'', None), (''u1'', Some ''a.json''),
                  (''u3'', Some ''b.json''), (''u2'', None), (''u3'', Some ''a.json'')]"


text \<open>
  The requests of a user, the work items of all other users, and the users with at
  least one successful request.
\<close>

definition requests_of :: "string \<Rightarrow> (string \<times> string option) list \<Rightarrow> nat" where
  "requests_of u work = length (filter (\<lambda>w. fst w = u) work)"

definition without_user :: "string \<Rightarrow> (string \<times> string option) list \<Rightarrow> (string \<times> string option) list" where
  "without_user u work = filter (\<lambda>w. fst w \<noteq> u) work"

definition successful_users :: "(string \<times> string option) list \<Rightarrow> string set" where
  "successful_users work = fst ` {w \<in> set work. snd w \<noteq> None}"

section \<open>Facts about the assignment\<close>

lemma sint_small: "0 \<le> r \<Longrightarrow> r < 2 ^ 63 \<Longrightarrow> sint (word_of_int r :: go_int) = r"
  by (simp add: signed_of_int signed_take_bit_int_eq_self)

lemma sint_ucast_32_64: "sint (ucast (h :: uint32) :: go_int) = uint h"
proof -
  have "uint h < 2 ^ 32" using uint_lt2p [of h] by simp
  then have hi: "uint h < 2 ^ 63" by simp
  have lo: "- (2 ^ 63) \<le> uint h"
    by (rule order_trans [of _ 0]) simp_all
  have "signed_take_bit 63 (uint h) = uint h"
    by (rule signed_take_bit_int_eq_self [OF lo hi])
  then show ?thesis
    by (simp add: signed_ucast_eq)
qed

lemma sint_len: "n < 2 ^ 63 \<Longrightarrow> sint (word_of_nat n :: go_int) = int n"
  by (simp add: signed_of_nat signed_take_bit_int_eq_self)

lemma len_nonzero: "0 < n \<Longrightarrow> n < 2 ^ 63 \<Longrightarrow> (word_of_nat n :: go_int) \<noteq> 0"
  using sint_len [of n] by auto

lemma smod_nonneg: "0 \<le> a \<Longrightarrow> 0 < b \<Longrightarrow> (a::int) smod b = a mod b"
  by (simp add: smod_mod_positive)

lemma payloadIndex_eq:
  assumes "0 < n" "n < 2 ^ 63"
  shows "payloadIndex k n = Inr (word_of_int (uint (Sum32_New32a k) mod int n))"
  using assms
  by (simp add: payloadIndex_def go_rem_def len_nonzero sint_ucast_32_64 sint_len smod_nonneg)

lemma payloadIndex_sint:
  assumes "0 < n" "n < 2 ^ 63"
  shows "\<exists>i. payloadIndex k n = Inr i \<and> sint i = uint (Sum32_New32a k) mod int n"
proof -
  let ?r = "uint (Sum32_New32a k) mod int n"
  have r0: "0 \<le> ?r" and r1: "?r < int n" using assms by simp_all
  have "?r < 2 ^ 63" using r1 assms(2) by (simp add: less_trans)
  then have "sint (word_of_int ?r :: go_int) = ?r" using r0 by (simp add: sint_small)
  then show ?thesis using payloadIndex_eq [OF assms] by simp
qed

lemma sum32a_Write_foldl:
  "sum32a_Write h key = foldl (\<lambda>h c. (h XOR byte_of c) * prime32) h key"
  by (induction key arbitrary: h) simp_all

text \<open>
  C1. For every key \<open>k\<close> and every store size \<open>n > 0\<close> (a slice length, hence below
  \<open>2^63\<close>), the index computed by \<open>getPayloadForUser\<close> is some \<open>i\<close> with
  \<open>0 \<le> i < n\<close>, no panic is raised, and the lookup in a store of that size returns
  the element at \<open>i\<close>.
\<close>

theorem assign_in_range:
  assumes "0 < n" "n < 2 ^ 63"
  shows "\<exists>i. payloadIndex k n = Inr i \<and> 0 \<le> sint i \<and> sint i < int n \<and>
           (\<forall>payloads. length payloads = n \<longrightarrow>
              getPayloadForUser payloads k = Inr (payloads ! nat (sint i)))"
proof -
  obtain i where i: "payloadIndex k n = Inr i"
    and s: "sint i = uint (Sum32_New32a k) mod int n"
    using payloadIndex_sint [OF assms] by blast
  have r: "0 \<le> sint i" "sint i < int n" using assms s by simp_all
  have "getPayloadForUser payloads k = Inr (payloads ! nat (sint i))"
    if "length payloads = n" for payloads
    using that i r by (simp add: getPayloadForUser_def index_slice_def)
  then show ?thesis using i r by blast
qed

theorem assign_in_range_witness:
  "\<exists>i. payloadIndex ''user-123'' 6 = Inr i \<and> 0 \<le> sint i \<and> sint i < 6 \<and>
     getPayloadForUser (replicate 6 \<lparr>Name = ''p'', Content = ''{}''\<rparr>) ''user-123''
       = Inr (replicate 6 \<lparr>Name = ''p'', Content = ''{}''\<rparr> ! nat (sint i))"
proof -
  let ?ps = "replicate 6 \<lparr>Name = ''p'', Content = ''{}''\<rparr>"
  have n: "(0::nat) < 6" "(6::nat) < 2 ^ 63" by simp_all
  from assign_in_range [OF n, of "''user-123''"]
  obtain i where i: "payloadIndex ''user-123'' 6 = Inr i"
    and r: "0 \<le> sint i" "sint i < 6"
    and a: "\<forall>payloads. length payloads = 6 \<longrightarrow>
              getPayloadForUser payloads ''user-123'' = Inr (payloads ! nat (sint i))"
    by auto
  have "length ?ps = 6" by simp
  with a have "getPayloadForUser ?ps ''user-123'' = Inr (?ps ! nat (sint i))"
    by blast
  with i r show ?thesis by blast
qed

text \<open>
  C2, as the specification states it: the index is the multiply-then-xor hash
  reduced modulo the variant count. The code differs already on the one-byte key
  \<open>a\<close> with six variants: it computes index 4, the stated construction gives 2.
\<close>

theorem spec_hash_order_counterexample:
  "payloadIndex ''a'' 6 = Inr 4 \<and> spec_assign ''a'' 6 = 2"
  by (simp add: payloadIndex_def go_rem_def Sum32_New32a_def spec_assign_def
      offset32_def prime32_def byte_of_def smod_nonneg)

text \<open>
  C2, amended: for every key and every store size \<open>0 < n < 2^63\<close>, the hash is the
  32-bit hash that starts at the offset basis \<open>0x811c9dc5\<close> and performs, for each
  byte of the key in order, one xor-then-multiply step with the prime \<open>0x01000193\<close>,
  and the index is that hash, read as an unsigned number, modulo \<open>n\<close>.
\<close>

theorem assign_is_fnv1a_mod:
  assumes "0 < n" "n < 2 ^ 63"
  shows "Sum32_New32a k = fnv1a_spec k \<and>
         (\<exists>i. payloadIndex k n = Inr i \<and> sint i = int (assign_spec k n))"
proof -
  have h: "Sum32_New32a k = fnv1a_spec k"
    by (simp add: Sum32_New32a_def fnv1a_spec_def sum32a_Write_foldl)
  have "int (assign_spec k n) = uint (Sum32_New32a k) mod int n"
    by (simp add: assign_spec_def h zmod_int)
  then show ?thesis using payloadIndex_sint [OF assms, of k] h by simp
qed

theorem assign_is_fnv1a_mod_witness:
  "Sum32_New32a ''a'' = fnv1a_spec ''a'' \<and>
   (\<exists>i. payloadIndex ''a'' 6 = Inr i \<and> sint i = int (assign_spec ''a'' 6))"
  using assign_is_fnv1a_mod [of 6 "''a''"] by simp

text \<open>
  C8. For every store size \<open>0 < n < 2^63\<close> the empty key raises no panic: hashing
  zero bytes leaves the hash at the offset basis, and the index is
  \<open>0x811c9dc5 mod n\<close>.
\<close>

theorem empty_key_index:
  assumes "0 < n" "n < 2 ^ 63"
  shows "Sum32_New32a [] = 0x811c9dc5 \<and>
         (\<exists>i. payloadIndex [] n = Inr i \<and> sint i = 0x811c9dc5 mod int n)"
proof -
  have h: "Sum32_New32a [] = 0x811c9dc5"
    by (simp add: Sum32_New32a_def offset32_def)
  then show ?thesis using payloadIndex_sint [OF assms, of "[]"] by simp
qed

theorem empty_key_index_witness:
  "Sum32_New32a [] = 0x811c9dc5 \<and>
   (\<exists>i. payloadIndex [] 6 = Inr i \<and> sint i = 0x811c9dc5 mod 6)"
  using empty_key_index [of 6] by simp

section \<open>Facts about the payload store and the handler\<close>

lemma load_file_invalid:
  assumes "ReadFile (''payloads/'' @ name) = Some content"
    and "Unmarshal_map parse content = None"
  shows "load_file parse marshal ReadFile st name
           = (fst st, snd st @ [WarnInvalidJSON (''payloads/'' @ name)])"
  using assms by (simp add: load_file_def)

lemma load_file_whole:
  assumes "ReadFile (''payloads/'' @ name) = Some content"
    and "Unmarshal_map parse content = Some parsed"
    and "payloads_array parsed = None"
  shows "load_file parse marshal ReadFile st name
           = (fst st @ [\<lparr>Name = name, Content = content\<rparr>],
              snd st @ [LoadedPayload name (length content)])"
  using assms by (simp add: load_file_def)

lemma load_file_skip:
  assumes "ReadFile (''payloads/'' @ name) = Some content"
    and "Unmarshal_map parse content = None"
  shows "load_file parse marshal ReadFile st name = skip_invalid st name"
  using assms by (simp add: load_file_invalid skip_invalid_def)

lemma load_file_take:
  assumes "ReadFile (''payloads/'' @ name) = Some content"
    and "Unmarshal_map parse content = Some parsed"
    and "payloads_array parsed = None"
  shows "load_file parse marshal ReadFile st name = take_whole st name content"
  using assms by (simp add: load_file_whole take_whole_def)

lemma payloadNames_member:
  assumes "entry \<in> set entries" "\<not> IsDir entry" "HasSuffix (entry_Name entry) ''.json''"
  shows "entry_Name entry \<in> set (payloadNames entries)"
  using assms by (auto simp: payloadNames_def)

lemma load_all_split:
  assumes "payloadNames entries = before @ name # rest"
  shows "load_all parse marshal ReadFile entries
     = foldl (load_file parse marshal ReadFile)
         (load_file parse marshal ReadFile
            (foldl (load_file parse marshal ReadFile) ([], []) before) name) rest"
  by (simp add: load_all_def assms)

text \<open>
  C5, amended: every directory entry that is not a directory, has a name ending
  in \<open>.json\<close> and can be read is visited by the loading loop, and there
  (1) content that is not valid JSON is skipped with the warning and the loop goes
  on with the remaining names; (2) so is a valid document that is neither an
  object nor \<open>null\<close> (an array, string, number or boolean), or that holds a number
  beyond \<open>float64\<close>; (3) an object without a top-level \<open>payloads\<close> array whose
  numbers fit, and (4) the document \<open>null\<close>, become exactly one payload named
  after the file, holding the raw content.
\<close>

theorem load_file_json_cases:
  assumes "entry \<in> set entries" "\<not> IsDir entry" "HasSuffix (entry_Name entry) ''.json''"
    and "ReadFile (''payloads/'' @ entry_Name entry) = Some content"
  shows "\<exists>before rest.
      payloadNames entries = before @ entry_Name entry # rest
    \<and> (parse content = None \<longrightarrow>
         load_all parse marshal ReadFile entries
           = foldl (load_file parse marshal ReadFile)
               (skip_invalid (foldl (load_file parse marshal ReadFile) ([], []) before)
                  (entry_Name entry)) rest)
    \<and> (\<forall>v. parse content = Some v \<and> v \<noteq> JNull
              \<and> ((\<forall>members. v \<noteq> JObject members) \<or> \<not> numbers_fit v) \<longrightarrow>
         load_all parse marshal ReadFile entries
           = foldl (load_file parse marshal ReadFile)
               (skip_invalid (foldl (load_file parse marshal ReadFile) ([], []) before)
                  (entry_Name entry)) rest)
    \<and> (\<forall>members. parse content = Some (JObject members) \<and> numbers_fit (JObject members)
              \<and> payloads_array members = None \<longrightarrow>
         load_all parse marshal ReadFile entries
           = foldl (load_file parse marshal ReadFile)
               (take_whole (foldl (load_file parse marshal ReadFile) ([], []) before)
                  (entry_Name entry) content) rest)
    \<and> (parse content = Some JNull \<longrightarrow>
         load_all parse marshal ReadFile entries
           = foldl (load_file parse marshal ReadFile)
               (take_whole (foldl (load_file parse marshal ReadFile) ([], []) before)
                  (entry_Name entry) content) rest)"
proof -
  let ?name = "entry_Name entry"
  have "?name \<in> set (payloadNames entries)"
    using assms(1-3) by (rule payloadNames_member)
  then obtain before rest where sp: "payloadNames entries = before @ ?name # rest"
    by (auto simp: in_set_conv_decomp)
  let ?st = "foldl (load_file parse marshal ReadFile) ([], []) before"
  note all = load_all_split [OF sp, of parse marshal ReadFile]
  have 1: "load_all parse marshal ReadFile entries
           = foldl (load_file parse marshal ReadFile) (skip_invalid ?st ?name) rest"
    if "parse content = None"
  proof -
    have "Unmarshal_map parse content = None" using that by (simp add: Unmarshal_map_def)
    then show ?thesis using all assms(4) by (simp add: load_file_skip)
  qed
  have 2: "load_all parse marshal ReadFile entries
           = foldl (load_file parse marshal ReadFile) (skip_invalid ?st ?name) rest"
    if a: "parse content = Some v \<and> v \<noteq> JNull
            \<and> ((\<forall>members. v \<noteq> JObject members) \<or> \<not> numbers_fit v)" for v
  proof -
    have "Unmarshal_map parse content = None"
      using a by (cases v) (auto simp: Unmarshal_map_def)
    then show ?thesis using all assms(4) by (simp add: load_file_skip)
  qed
  have 3: "load_all parse marshal ReadFile entries
           = foldl (load_file parse marshal ReadFile) (take_whole ?st ?name content) rest"
    if a: "parse content = Some (JObject members) \<and> numbers_fit (JObject members)
            \<and> payloads_array members = None" for members
  proof -
    have "Unmarshal_map parse content = Some members"
      using a by (simp add: Unmarshal_map_def)
    then show ?thesis using all assms(4) a by (simp add: load_file_take)
  qed
  have 4: "load_all parse marshal ReadFile entries
           = foldl (load_file parse marshal ReadFile) (take_whole ?st ?name content) rest"
    if "parse content = Some JNull"
  proof -
    have "Unmarshal_map parse content = Some []" using that by (simp add: Unmarshal_map_def)
    moreover have "payloads_array [] = None" by (simp add: payloads_array_def)
    ultimately show ?thesis using all assms(4) by (simp add: load_file_take)
  qed
  show ?thesis
    apply (rule exI [of _ before])
    apply (rule exI [of _ rest])
    apply (intro conjI allI impI)
        apply (rule sp)
       apply (rule 1, assumption)
      apply (rule 2, assumption)
     apply (rule 3, assumption)
    apply (rule 4, assumption)
    done
qed

lemma singleton_split: "[x] = before @ x # rest \<Longrightarrow> before = [] \<and> rest = []"
  by (cases before) auto

theorem load_file_json_cases_witness:
  "load_all sample_parse sample_marshal sample_ReadFile
     [\<lparr>entry_Name = ''b.json'', IsDir = False\<rparr>]
     = ([\<lparr>Name = ''b.json'', Content = ''{}''\<rparr>], [LoadedPayload ''b.json'' 2])
   \<and> load_all sample_parse sample_marshal sample_ReadFile
     [\<lparr>entry_Name = ''x.json'', IsDir = False\<rparr>]
     = ([], [WarnInvalidJSON ''payloads/x.json''])"
proof -
  let ?b = "\<lparr>entry_Name = ''b.json'', IsDir = False\<rparr>"
  let ?x = "\<lparr>entry_Name = ''x.json'', IsDir = False\<rparr>"
  have nb: "payloadNames [?b] = [''b.json'']" and nx: "payloadNames [?x] = [''x.json'']"
    by (simp_all add: payloadNames_def HasSuffix_def)
  have hb: "?b \<in> set [?b]" "\<not> IsDir ?b" "HasSuffix (entry_Name ?b) ''.json''"
    "sample_ReadFile (''payloads/'' @ entry_Name ?b) = Some ''{}''"
    by (simp_all add: HasSuffix_def sample_ReadFile_def)
  have hx: "?x \<in> set [?x]" "\<not> IsDir ?x" "HasSuffix (entry_Name ?x) ''.json''"
    "sample_ReadFile (''payloads/'' @ entry_Name ?x) = Some big_number_document"
    by (simp_all add: HasSuffix_def sample_ReadFile_def)
  have pb: "sample_parse ''{}'' = Some (JObject []) \<and> numbers_fit (JObject [])
      \<and> payloads_array [] = None"
    by (simp add: sample_parse_def payloads_array_def)
  have big: "\<not> fits_float64 huge_number"
    by (simp add: fits_float64_def huge_number_def)
  have px: "sample_parse big_number_document = Some (JObject [(''x'', JNumber huge_number)])
      \<and> JObject [(''x'', JNumber huge_number)] \<noteq> JNull
      \<and> \<not> numbers_fit (JObject [(''x'', JNumber huge_number)])"
    using big by (simp add: sample_parse_def big_number_document_def)
  from load_file_json_cases [where parse = sample_parse and marshal = sample_marshal
      and ReadFile = sample_ReadFile and entries = "[?b]" and entry = ?b
      and content = "''{}''", OF hb]
  obtain before rest where
    "payloadNames [?b] = before @ entry_Name ?b # rest"
    "\<forall>members. sample_parse ''{}'' = Some (JObject members) \<and> numbers_fit (JObject members)
        \<and> payloads_array members = None \<longrightarrow>
      load_all sample_parse sample_marshal sample_ReadFile [?b]
        = foldl (load_file sample_parse sample_marshal sample_ReadFile)
            (take_whole (foldl (load_file sample_parse sample_marshal sample_ReadFile) ([], []) before)
               (entry_Name ?b) ''{}'') rest"
    by blast
  moreover from this(1) have "before = [] \<and> rest = []"
    using singleton_split [of "''b.json''" before rest] by (simp add: nb)
  ultimately have 1: "load_all sample_parse sample_marshal sample_ReadFile [?b]
        = take_whole ([], []) ''b.json'' ''{}''"
    using pb by simp
  from load_file_json_cases [where parse = sample_parse and marshal = sample_marshal
      and ReadFile = sample_ReadFile and entries = "[?x]" and entry = ?x
      and content = big_number_document, OF hx]
  obtain before' rest' where
    "payloadNames [?x] = before' @ entry_Name ?x # rest'"
    "\<forall>v. sample_parse big_number_document = Some v \<and> v \<noteq> JNull
        \<and> ((\<forall>members. v \<noteq> JObject members) \<or> \<not> numbers_fit v) \<longrightarrow>
      load_all sample_parse sample_marshal sample_ReadFile [?x]
        = foldl (load_file sample_parse sample_marshal sample_ReadFile)
            (skip_invalid (foldl (load_file sample_parse sample_marshal sample_ReadFile) ([], []) before')
               (entry_Name ?x)) rest'"
    by blast
  moreover from this(1) have "before' = [] \<and> rest' = []"
    using singleton_split [of "''x.json''" before' rest'] by (simp add: nx)
  ultimately have 2: "load_all sample_parse sample_marshal sample_ReadFile [?x]
        = skip_invalid ([], []) ''x.json''"
    using px by simp
  from 1 2 show ?thesis by (simp add: take_whole_def skip_invalid_def)
qed

text \<open>
  C5, as stated: every valid JSON document without a top-level \<open>payloads\<close> array,
  whatever its top-level type, becomes one payload. The directory holding only
  \<open>a.json\<close> with the valid document \<open>[1]\<close> loads no payload at all.
\<close>

theorem valid_array_document_skipped_counterexample:
  "sample_ReadFile ''payloads/a.json'' = Some ''[1]''
   \<and> sample_parse ''[1]'' = Some (JArray [JNumber 1])
   \<and> load_all sample_parse sample_marshal sample_ReadFile
        [\<lparr>entry_Name = ''a.json'', IsDir = False\<rparr>]
      = ([], [WarnInvalidJSON ''payloads/a.json''])"
  by (simp add: sample_ReadFile_def sample_parse_def load_all_def payloadNames_def
      HasSuffix_def load_file_def Unmarshal_map_def)

text \<open>
  C6. When the loading loop has produced no payload, \<open>init\<close> is fatal and the
  process exits without serving; so it does for an empty directory; and a
  process that serves has a non-empty store.
\<close>

theorem boot_nonempty:
  "(fst (load_all parse marshal ReadFile entries) = [] \<longrightarrow>
      init parse marshal (Some entries) ReadFile = Fatal ''No payloads loaded''
      \<and> start parse marshal (Some entries) ReadFile = Exited 1)
   \<and> start parse marshal (Some []) ReadFile = Exited 1
   \<and> (start parse marshal ReadDir ReadFile = Serving payloads \<longrightarrow> payloads \<noteq> [])"
proof (intro conjI impI)
  assume "fst (load_all parse marshal ReadFile entries) = []"
  then show "init parse marshal (Some entries) ReadFile = Fatal ''No payloads loaded''"
    and "start parse marshal (Some entries) ReadFile = Exited 1"
    by (simp_all add: start_def init_def Let_def)
next
  show "start parse marshal (Some []) ReadFile = Exited 1"
    by (simp add: start_def init_def load_all_def payloadNames_def)
next
  assume "start parse marshal ReadDir ReadFile = Serving payloads"
  then show "payloads \<noteq> []"
    by (auto simp: start_def init_def Let_def split: option.splits if_splits boot.splits)
qed

theorem boot_nonempty_witness:
  "start sample_parse sample_marshal
     (Some [\<lparr>entry_Name = ''a.json'', IsDir = False\<rparr>]) sample_ReadFile = Exited 1
   \<and> start sample_parse sample_marshal
     (Some [\<lparr>entry_Name = ''b.json'', IsDir = False\<rparr>]) sample_ReadFile
       = Serving [\<lparr>Name = ''b.json'', Content = ''{}''\<rparr>]
   \<and> [\<lparr>Name = ''b.json'', Content = ''{}''\<rparr>] \<noteq> []"
proof -
  have a: "fst (load_all sample_parse sample_marshal sample_ReadFile
             [\<lparr>entry_Name = ''a.json'', IsDir = False\<rparr>]) = []"
    by (simp add: sample_ReadFile_def sample_parse_def load_all_def payloadNames_def
      HasSuffix_def load_file_def Unmarshal_map_def)
  have b: "start sample_parse sample_marshal
     (Some [\<lparr>entry_Name = ''b.json'', IsDir = False\<rparr>]) sample_ReadFile
       = Serving [\<lparr>Name = ''b.json'', Content = ''{}''\<rparr>]"
    by (simp add: start_def init_def sample_ReadFile_def sample_parse_def load_all_def
      payloadNames_def HasSuffix_def load_file_def Unmarshal_map_def payloads_array_def)
  from boot_nonempty [of sample_parse sample_marshal sample_ReadFile
      "[\<lparr>entry_Name = ''a.json'', IsDir = False\<rparr>]"
      "Some [\<lparr>entry_Name = ''b.json'', IsDir = False\<rparr>]"
      "[\<lparr>Name = ''b.json'', Content = ''{}''\<rparr>]"] a b
  show ?thesis by blast
qed


text \<open>
  The store of a serving process holds valid JSON only, provided the encoder
  writes documents the decoder accepts: the content of a whole file has been
  decoded, the content of an array element has been encoded.
\<close>

lemma load_items_valid:
  assumes rt: "\<And>v s. marshal v = Some s \<Longrightarrow> parse s \<noteq> None"
    and "\<forall>p \<in> set (fst st). parse (Content p) \<noteq> None"
  shows "\<forall>p \<in> set (fst (load_items marshal name i items st)). parse (Content p) \<noteq> None"
  using assms(2)
proof (induction items arbitrary: i st)
  case Nil
  then show ?case by simp
next
  case (Cons item items)
  show ?case
  proof (cases "marshal item")
    case None
    then show ?thesis using Cons.IH [of "(fst st, snd st @ [WarnMarshal i name])" "Suc i"] Cons.prems
      by simp
  next
    case (Some itemBytes)
    then have "parse itemBytes \<noteq> None" by (rule rt)
    then show ?thesis
      using Some Cons.prems
        Cons.IH [of "(fst st @ [\<lparr>Name = name @ ''['' @ show_nat i @ '']'', Content = itemBytes\<rparr>], snd st)" "Suc i"]
      by simp
  qed
qed

lemma load_file_valid:
  assumes rt: "\<And>v s. marshal v = Some s \<Longrightarrow> parse s \<noteq> None"
    and inv: "\<forall>p \<in> set (fst st). parse (Content p) \<noteq> None"
  shows "\<forall>p \<in> set (fst (load_file parse marshal ReadFile st name)). parse (Content p) \<noteq> None"
proof (cases "ReadFile (''payloads/'' @ name)")
  case None
  then show ?thesis using inv by (simp add: load_file_def)
next
  case (Some content)
  show ?thesis
  proof (cases "Unmarshal_map parse content")
    case None
    then show ?thesis using Some inv by (simp add: load_file_def)
  next
    case parsed: (Some parsed)
    then have ok: "parse content \<noteq> None"
      by (auto simp: Unmarshal_map_def split: option.splits)
    show ?thesis
    proof (cases "payloads_array parsed")
      case None
      then show ?thesis using Some parsed inv ok by (simp add: load_file_def)
    next
      case arr: (Some payloadsArray)
      have "\<forall>p \<in> set (fst (load_items marshal name 0 payloadsArray
                (fst st, snd st @ [FoundArray name (length payloadsArray)]))).
              parse (Content p) \<noteq> None"
        by (rule load_items_valid [OF rt]) (simp_all add: inv)
      then show ?thesis using Some parsed arr by (simp add: load_file_def Let_def)
    qed
  qed
qed

lemma foldl_load_file_valid:
  assumes rt: "\<And>v s. marshal v = Some s \<Longrightarrow> parse s \<noteq> None"
    and inv: "\<forall>p \<in> set (fst st). parse (Content p) \<noteq> None"
  shows "\<forall>p \<in> set (fst (foldl (load_file parse marshal ReadFile) st names)).
           parse (Content p) \<noteq> None"
  using inv
proof (induction names arbitrary: st)
  case Nil
  then show ?case by simp
next
  case (Cons name names)
  have "\<forall>p \<in> set (fst (load_file parse marshal ReadFile st name)). parse (Content p) \<noteq> None"
    using rt Cons.prems by (rule load_file_valid)
  then show ?case using Cons.IH by simp
qed

lemma serving_store_valid:
  assumes rt: "\<And>v s. marshal v = Some s \<Longrightarrow> parse s \<noteq> None"
    and "start parse marshal ReadDir ReadFile = Serving payloads"
  shows "payloads \<noteq> [] \<and> (\<forall>p \<in> set payloads. parse (Content p) \<noteq> None)"
proof -
  obtain entries where e: "ReadDir = Some entries"
    and p: "payloads = fst (load_all parse marshal ReadFile entries)"
    and n: "payloads \<noteq> []"
    using assms(2)
    by (auto simp: start_def init_def Let_def split: option.splits if_splits boot.splits)
  have a: "\<forall>p \<in> set (fst (([], []) :: loader)). parse (Content p) \<noteq> None"
    by simp
  have "\<forall>p \<in> set (fst (load_all parse marshal ReadFile entries)). parse (Content p) \<noteq> None"
    unfolding load_all_def
    using foldl_load_file_valid [of marshal parse "([], [])" ReadFile "payloadNames entries"] rt a
    by blast
  then show ?thesis using p n by simp
qed

lemma getPayloadForUser_member:
  assumes "payloads \<noteq> []" "length payloads < 2 ^ 63"
  shows "\<exists>p. p \<in> set payloads \<and> getPayloadForUser payloads u = Inr p"
proof -
  have n: "0 < length payloads" using assms(1) by simp
  obtain i where i: "payloadIndex u (length payloads) = Inr i"
    and s: "sint i = uint (Sum32_New32a u) mod int (length payloads)"
    using payloadIndex_sint [OF n assms(2)] by blast
  have r: "0 \<le> sint i" "sint i < int (length payloads)" using n s by simp_all
  then have "nat (sint i) < length payloads" by simp
  then have "payloads ! nat (sint i) \<in> set payloads" by (rule nth_mem)
  moreover have "getPayloadForUser payloads u = Inr (payloads ! nat (sint i))"
    using i r by (simp add: getPayloadForUser_def index_slice_def)
  ultimately show ?thesis by blast
qed

lemma experiment_ok:
  assumes "BodyParser c = Some req" "UserID req \<noteq> []"
    and "getPayloadForUser payloads (UserID req) = Inr p"
    and "parse (Content p) = Some v"
  shows "experiment_handler parse payloads c
           = Inr (200, JObject
               [(''experimentId'', JString ''exp-localization-v1''),
                (''selectedPayloadName'', JString (Name p)),
                (''payload'', v)])"
  using assms by (simp add: experiment_handler_def Marshal_Response_def)

text \<open>
  C4. On a store as \<open>init\<close> leaves it (non-empty, every content valid JSON), the
  handler replies 400 with an \<open>error\<close> string exactly when the body cannot be
  parsed or \<open>userId\<close> is missing or empty; otherwise it replies 200 with
  \<open>experimentId\<close> equal to \<open>exp-localization-v1\<close>, the selected payload's name,
  and under \<open>payload\<close> the JSON value that the payload's content denotes (not a
  string holding the content).
\<close>

theorem experiment_replies:
  assumes "payloads \<noteq> []" "length payloads < 2 ^ 63"
    and "\<forall>p \<in> set payloads. parse (Content p) \<noteq> None"
  shows "(BodyParser c = None \<longrightarrow>
            experiment_handler parse payloads c
              = Inr (400, JObject [(''error'', JString ''Invalid request body'')]))
       \<and> (\<forall>req. BodyParser c = Some req \<and> UserID req = [] \<longrightarrow>
            experiment_handler parse payloads c
              = Inr (400, JObject [(''error'', JString ''userId is required'')]))
       \<and> (\<forall>req. BodyParser c = Some req \<and> UserID req \<noteq> [] \<longrightarrow>
            (\<exists>p v. p \<in> set payloads
               \<and> getPayloadForUser payloads (UserID req) = Inr p
               \<and> parse (Content p) = Some v
               \<and> experiment_handler parse payloads c
                   = Inr (200, JObject
                       [(''experimentId'', JString ''exp-localization-v1''),
                        (''selectedPayloadName'', JString (Name p)),
                        (''payload'', v)])))
       \<and> (status_of (experiment_handler parse payloads c) = Some 400
            \<longleftrightarrow> (BodyParser c = None \<or> (\<exists>req. BodyParser c = Some req \<and> UserID req = [])))
       \<and> (status_of (experiment_handler parse payloads c) \<noteq> Some 400
            \<longrightarrow> status_of (experiment_handler parse payloads c) = Some 200)"
proof -
  have ok: "\<exists>p v. p \<in> set payloads
               \<and> getPayloadForUser payloads (UserID req) = Inr p
               \<and> parse (Content p) = Some v
               \<and> experiment_handler parse payloads c
                   = Inr (200, JObject
                       [(''experimentId'', JString ''exp-localization-v1''),
                        (''selectedPayloadName'', JString (Name p)),
                        (''payload'', v)])"
    if r: "BodyParser c = Some req" "UserID req \<noteq> []" for req
  proof -
    obtain p where p: "p \<in> set payloads" "getPayloadForUser payloads (UserID req) = Inr p"
      using getPayloadForUser_member [OF assms(1,2)] by blast
    obtain v where v: "parse (Content p) = Some v" using assms(3) p(1) by auto
    show ?thesis using experiment_ok [where parse = parse, OF r p(2) v] p v by blast
  qed
  have bad1: "experiment_handler parse payloads c
              = Inr (400, JObject [(''error'', JString ''Invalid request body'')])"
    if "BodyParser c = None"
    using that by (simp add: experiment_handler_def error_body_def)
  have bad2: "experiment_handler parse payloads c
              = Inr (400, JObject [(''error'', JString ''userId is required'')])"
    if "BodyParser c = Some req" "UserID req = []" for req
    using that by (simp add: experiment_handler_def error_body_def)
  have st: "status_of (experiment_handler parse payloads c)
      = (if BodyParser c = None \<or> (\<exists>req. BodyParser c = Some req \<and> UserID req = [])
         then Some 400 else Some 200)"
  proof (cases "BodyParser c")
    case None
    then show ?thesis using bad1 by (simp add: status_of_def)
  next
    case (Some req)
    show ?thesis
    proof (cases "UserID req = []")
      case True
      then show ?thesis using bad2 [OF Some] Some by (simp add: status_of_def)
    next
      case False
      then show ?thesis using ok [OF Some] Some by (auto simp: status_of_def)
    qed
  qed
  show ?thesis
    using ok bad1 bad2 by (simp add: st)
qed

theorem experiment_replies_witness:
  "experiment_handler sample_parse [\<lparr>Name = ''b.json'', Content = ''{}''\<rparr>]
      \<lparr>BodyParser = None\<rparr>
     = Inr (400, JObject [(''error'', JString ''Invalid request body'')])
   \<and> experiment_handler sample_parse [\<lparr>Name = ''b.json'', Content = ''{}''\<rparr>]
      \<lparr>BodyParser = Some \<lparr>UserID = []\<rparr>\<rparr>
     = Inr (400, JObject [(''error'', JString ''userId is required'')])
   \<and> experiment_handler sample_parse [\<lparr>Name = ''b.json'', Content = ''{}''\<rparr>]
      \<lparr>BodyParser = Some \<lparr>UserID = ''user-123''\<rparr>\<rparr>
     = Inr (200, JObject
         [(''experimentId'', JString ''exp-localization-v1''),
          (''selectedPayloadName'', JString ''b.json''),
          (''payload'', JObject [])])"
proof -
  let ?ps = "[\<lparr>Name = ''b.json'', Content = ''{}''\<rparr>]"
  have h: "?ps \<noteq> []" "length ?ps < 2 ^ 63"
    "\<forall>p \<in> set ?ps. sample_parse (Content p) \<noteq> None"
    by (simp_all add: sample_parse_def)
  note T = experiment_replies [where parse = sample_parse and payloads = ?ps, OF h]
  have 1: "experiment_handler sample_parse ?ps \<lparr>BodyParser = None\<rparr>
     = Inr (400, JObject [(''error'', JString ''Invalid request body'')])"
    using T [where c = "\<lparr>BodyParser = None\<rparr>", THEN conjunct1] by simp
  have 2: "experiment_handler sample_parse ?ps \<lparr>BodyParser = Some \<lparr>UserID = []\<rparr>\<rparr>
     = Inr (400, JObject [(''error'', JString ''userId is required'')])"
    using T [where c = "\<lparr>BodyParser = Some \<lparr>UserID = []\<rparr>\<rparr>",
        THEN conjunct2, THEN conjunct1] by simp
  have "\<exists>p v. p \<in> set ?ps \<and> sample_parse (Content p) = Some v
     \<and> experiment_handler sample_parse ?ps \<lparr>BodyParser = Some \<lparr>UserID = ''user-123''\<rparr>\<rparr>
         = Inr (200, JObject
             [(''experimentId'', JString ''exp-localization-v1''),
              (''selectedPayloadName'', JString (Name p)),
              (''payload'', v)])"
    using T [where c = "\<lparr>BodyParser = Some \<lparr>UserID = ''user-123''\<rparr>\<rparr>",
        THEN conjunct2, THEN conjunct2, THEN conjunct1] by simp
  then have 3: "experiment_handler sample_parse ?ps
      \<lparr>BodyParser = Some \<lparr>UserID = ''user-123''\<rparr>\<rparr>
     = Inr (200, JObject
         [(''experimentId'', JString ''exp-localization-v1''),
          (''selectedPayloadName'', JString ''b.json''),
          (''payload'', JObject [])])"
    by (simp add: sample_parse_def)
  from 1 2 3 show ?thesis by blast
qed

lemma experiment_userid_only:
  assumes "BodyParser c = Some r" "BodyParser c' = Some r'" "UserID r = UserID r'"
  shows "experiment_handler parse payloads c = experiment_handler parse payloads c'"
  using assms by (simp add: experiment_handler_def)

lemma serve_map:
  "serve parse payloads cs = (map (experiment_handler parse payloads) cs, payloads)"
  by (induction cs) (simp_all add: Let_def)

lemma experiment_name_for_user:
  assumes "getPayloadForUser payloads u = Inr p" "parse (Content p) = Some v" "u \<noteq> []"
    and "BodyParser c = Some r \<and> UserID r = u"
  shows "status_of (experiment_handler parse payloads c) = Some 200
       \<and> selectedPayloadName_of (experiment_handler parse payloads c) = Some (Name p)"
proof -
  have "experiment_handler parse payloads c
         = Inr (200, JObject
             [(''experimentId'', JString ''exp-localization-v1''),
              (''selectedPayloadName'', JString (Name p)),
              (''payload'', v)])"
    using assms experiment_ok [of c r payloads p parse v] by simp
  then show ?thesis by (simp add: status_of_def selectedPayloadName_of_def)
qed

lemma serve_name_for_user:
  assumes "getPayloadForUser payloads u = Inr p" "parse (Content p) = Some v" "u \<noteq> []"
    and "i < length cs \<and> (\<exists>r. BodyParser (cs ! i) = Some r \<and> UserID r = u)"
  shows "snd (serve parse payloads cs) = payloads
       \<and> selectedPayloadName_of (fst (serve parse payloads cs) ! i) = Some (Name p)"
proof -
  from assms(4) obtain r where r: "BodyParser (cs ! i) = Some r \<and> UserID r = u" by blast
  have "selectedPayloadName_of (experiment_handler parse payloads (cs ! i)) = Some (Name p)"
    using experiment_name_for_user [where parse = parse and v = v, OF assms(1) assms(2) assms(3) r]
    by simp
  then show ?thesis using assms(4) by (simp add: serve_map)
qed

text \<open>
  C3. Two runs of the handler on one store whose requests carry the same
  \<open>userId\<close> return the same reply, and hence the same \<open>selectedPayloadName\<close>.
  On a store as \<open>init\<close> leaves it and for a non-empty \<open>userId\<close> the reply is a
  200 whose \<open>selectedPayloadName\<close> is the name of the payload that
  \<open>getPayloadForUser\<close> selects for that \<open>userId\<close>: in every run of the service,
  whatever other requests it handles before, between and after, each request of
  that user is answered with this one name, and the store is left as it was.
\<close>

theorem experiment_same_user:
  "(BodyParser c1 = Some r1 \<and> BodyParser c2 = Some r2 \<and> UserID r1 = UserID r2 \<longrightarrow>
      experiment_handler parse payloads c1 = experiment_handler parse payloads c2
      \<and> selectedPayloadName_of (experiment_handler parse payloads c1)
          = selectedPayloadName_of (experiment_handler parse payloads c2))
   \<and> (payloads \<noteq> [] \<and> length payloads < 2 ^ 63
        \<and> (\<forall>p \<in> set payloads. parse (Content p) \<noteq> None) \<and> u \<noteq> [] \<longrightarrow>
      (\<exists>p \<in> set payloads.
          getPayloadForUser payloads u = Inr p
        \<and> (\<forall>c r. BodyParser c = Some r \<and> UserID r = u \<longrightarrow>
              status_of (experiment_handler parse payloads c) = Some 200
              \<and> selectedPayloadName_of (experiment_handler parse payloads c) = Some (Name p))
        \<and> (\<forall>cs i. i < length cs \<and> (\<exists>r. BodyParser (cs ! i) = Some r \<and> UserID r = u) \<longrightarrow>
              snd (serve parse payloads cs) = payloads
              \<and> selectedPayloadName_of (fst (serve parse payloads cs) ! i) = Some (Name p))))"
proof (intro conjI impI)
  assume a: "BodyParser c1 = Some r1 \<and> BodyParser c2 = Some r2 \<and> UserID r1 = UserID r2"
  then show two: "experiment_handler parse payloads c1 = experiment_handler parse payloads c2"
    using experiment_userid_only [of c1 r1 c2 r2 parse payloads] by simp
  then show "selectedPayloadName_of (experiment_handler parse payloads c1)
          = selectedPayloadName_of (experiment_handler parse payloads c2)"
    by simp
next
  assume a: "payloads \<noteq> [] \<and> length payloads < 2 ^ 63
        \<and> (\<forall>p \<in> set payloads. parse (Content p) \<noteq> None) \<and> u \<noteq> []"
  then obtain p where p: "p \<in> set payloads" "getPayloadForUser payloads u = Inr p"
    using getPayloadForUser_member [of payloads u] by blast
  obtain v where v: "parse (Content p) = Some v" using a p(1) by auto
  have u: "u \<noteq> []" using a by simp
  show "\<exists>p \<in> set payloads.
          getPayloadForUser payloads u = Inr p
        \<and> (\<forall>c r. BodyParser c = Some r \<and> UserID r = u \<longrightarrow>
              status_of (experiment_handler parse payloads c) = Some 200
              \<and> selectedPayloadName_of (experiment_handler parse payloads c) = Some (Name p))
        \<and> (\<forall>cs i. i < length cs \<and> (\<exists>r. BodyParser (cs ! i) = Some r \<and> UserID r = u) \<longrightarrow>
              snd (serve parse payloads cs) = payloads
              \<and> selectedPayloadName_of (fst (serve parse payloads cs) ! i) = Some (Name p))"
    apply (rule bexI [of _ p])
     apply (intro conjI allI impI)
         apply (rule p(2))
        apply (rule experiment_name_for_user [where parse = parse and v = v, OF p(2) v u, THEN conjunct1], assumption)
       apply (rule experiment_name_for_user [where parse = parse and v = v, OF p(2) v u, THEN conjunct2], assumption)
      apply (rule serve_name_for_user [where parse = parse and v = v, OF p(2) v u, THEN conjunct1], assumption)
     apply (rule serve_name_for_user [where parse = parse and v = v, OF p(2) v u, THEN conjunct2], assumption)
    apply (rule p(1))
    done
qed

theorem experiment_same_user_witness:
  "selectedPayloadName_of
     (fst (serve sample_parse
        [\<lparr>Name = ''b.json'', Content = ''{}''\<rparr>, \<lparr>Name = ''n.json'', Content = ''null''\<rparr>]
        [\<lparr>BodyParser = Some \<lparr>UserID = ''user-123''\<rparr>\<rparr>, \<lparr>BodyParser = None\<rparr>,
         \<lparr>BodyParser = Some \<lparr>UserID = ''user-123''\<rparr>\<rparr>]) ! 0) = Some ''n.json''
   \<and> selectedPayloadName_of
     (fst (serve sample_parse
        [\<lparr>Name = ''b.json'', Content = ''{}''\<rparr>, \<lparr>Name = ''n.json'', Content = ''null''\<rparr>]
        [\<lparr>BodyParser = Some \<lparr>UserID = ''user-123''\<rparr>\<rparr>, \<lparr>BodyParser = None\<rparr>,
         \<lparr>BodyParser = Some \<lparr>UserID = ''user-123''\<rparr>\<rparr>]) ! 2) = Some ''n.json''"
proof -
  let ?ps = "[\<lparr>Name = ''b.json'', Content = ''{}''\<rparr>, \<lparr>Name = ''n.json'', Content = ''null''\<rparr>]"
  let ?c = "\<lparr>BodyParser = Some \<lparr>UserID = ''user-123''\<rparr>\<rparr>"
  let ?cs = "[?c, \<lparr>BodyParser = None\<rparr>, ?c]"
  have h: "?ps \<noteq> [] \<and> length ?ps < 2 ^ 63
      \<and> (\<forall>p \<in> set ?ps. sample_parse (Content p) \<noteq> None) \<and> ''user-123'' \<noteq> []"
    by (simp add: sample_parse_def)
  from experiment_same_user [where parse = sample_parse and payloads = ?ps
      and u = "''user-123''", THEN conjunct2, THEN mp, OF h]
  obtain p where g: "getPayloadForUser ?ps ''user-123'' = Inr p"
    and run: "\<forall>(cs :: Ctx list) i.
        i < length cs \<and> (\<exists>r. BodyParser (cs ! i) = Some r \<and> UserID r = ''user-123'') \<longrightarrow>
          snd (serve sample_parse ?ps cs) = ?ps
          \<and> selectedPayloadName_of (fst (serve sample_parse ?ps cs) ! i) = Some (Name p)"
    by blast
  have e: "getPayloadForUser ?ps ''user-123'' = Inr \<lparr>Name = ''n.json'', Content = ''null''\<rparr>"
    by (simp add: getPayloadForUser_def payloadIndex_def go_rem_def Sum32_New32a_def
        offset32_def prime32_def byte_of_def smod_nonneg index_slice_def)
  have "p = \<lparr>Name = ''n.json'', Content = ''null''\<rparr>"
    using g unfolding e by simp
  then have n: "Name p = ''n.json''" by simp
  have 0: "0 < length ?cs \<and> (\<exists>r. BodyParser (?cs ! 0) = Some r \<and> UserID r = ''user-123'')"
    by simp
  have 2: "2 < length ?cs \<and> (\<exists>r. BodyParser (?cs ! 2) = Some r \<and> UserID r = ''user-123'')"
    by simp
  from run [rule_format, OF 0] run [rule_format, OF 2] n show ?thesis by simp
qed

section \<open>Facts about the load generator\<close>

lemma pow2_pos: "0 < pow2 k"
  by (simp add: pow2_def)

lemma round_half_even_nonneg: "0 \<le> x \<Longrightarrow> 0 \<le> round_half_even x"
  by (simp add: round_half_even_def Let_def)

lemma f64_round_nonneg: "0 \<le> x \<Longrightarrow> 0 \<le> f64_round x"
proof (cases "x = 0")
  case True
  then show ?thesis by (simp add: f64_round_def)
next
  case False
  assume "0 \<le> x"
  with False have x: "0 < x" by simp
  let ?q = "max (floor_log2 \<bar>x\<bar> - 52) (- 1074)"
  have "0 \<le> \<bar>x\<bar> / pow2 ?q" using pow2_pos [of ?q] by simp
  then have "0 \<le> round_half_even (\<bar>x\<bar> / pow2 ?q)" by (rule round_half_even_nonneg)
  then have "0 \<le> (of_int (round_half_even (\<bar>x\<bar> / pow2 ?q)) :: rat) * pow2 ?q"
    using pow2_pos [of ?q] by simp
  then show ?thesis using x False by (simp add: f64_round_def Let_def)
qed

lemma count_product_nonneg:
  "0 \<le> p \<Longrightarrow> 0 \<le> f64_mul (f64_of_int (int n)) p"
  by (simp add: f64_mul_def f64_of_int_def f64_round_nonneg)

lemma bit_length_bounds:
  "0 < n \<Longrightarrow> 2 ^ (bit_length n - 1) \<le> n \<and> n < 2 ^ bit_length n"
proof (induction n rule: bit_length.induct)
  case (1 n)
  show ?case
  proof (cases "n div 2 \<le> 0")
    case True
    with "1.prems" have "n = 1" by linarith
    then show ?thesis by (simp add: bit_length.simps [of 1] bit_length.simps [of 0])
  next
    case False
    then have pos: "0 < n div 2" by simp
    have n0: "\<not> n \<le> 0" using "1.prems" by simp
    from "1.IH" [OF n0 pos]
    have IH: "2 ^ (bit_length (n div 2) - 1) \<le> n div 2" "n div 2 < 2 ^ bit_length (n div 2)"
      by simp_all
    have bl: "bit_length n = Suc (bit_length (n div 2))"
      using n0 by (subst bit_length.simps) simp
    have blpos: "0 < bit_length (n div 2)"
      using pos by (subst bit_length.simps) simp
    have lo: "2 ^ (bit_length n - 1) \<le> n"
    proof -
      have "2 ^ bit_length (n div 2) = (2::int) * 2 ^ (bit_length (n div 2) - 1)"
        using blpos by (cases "bit_length (n div 2)") simp_all
      also have "\<dots> \<le> 2 * (n div 2)" using IH(1) by simp
      also have "\<dots> \<le> n" by simp
      finally show ?thesis by (simp add: bl)
    qed
    have hi: "n < 2 ^ bit_length n"
    proof -
      have "n div 2 + 1 \<le> 2 ^ bit_length (n div 2)" using IH(2) by simp
      then have "2 * (n div 2) + 2 \<le> 2 * 2 ^ bit_length (n div 2)" by simp
      moreover have "n < 2 * (n div 2) + 2" by (simp add: mult.commute)
      ultimately show ?thesis by (simp add: bl)
    qed
    from lo hi show ?thesis by blast
  qed
qed

lemma pow2_nonneg_exp: "0 \<le> k \<Longrightarrow> pow2 k = 2 ^ nat k"
  by (simp add: pow2_def)

lemma pow2_nonpos_exp: "k \<le> 0 \<Longrightarrow> pow2 k = 1 / 2 ^ nat (- k)"
  by (cases "k = 0") (simp_all add: pow2_def)

lemma floor_log2_small:
  assumes "0 < x" "x < 2 ^ 53"
  shows "floor_log2 x \<le> 52"
proof -
  obtain n d where q: "quotient_of x = (n, d)" by (cases "quotient_of x")
  have d: "0 < d" using quotient_of_denom_pos [OF q] .
  have x: "x = of_int n / of_int d" using quotient_of_div [OF q] .
  have n: "0 < n" using assms(1) d x by (simp add: zero_less_divide_iff)
  define k where "k = int (bit_length n) - int (bit_length d)"
  have k53: "k \<le> 53"
  proof (rule ccontr)
    assume "\<not> k \<le> 53"
    then have big: "bit_length d + 54 \<le> bit_length n" by (simp add: k_def)
    have "d * 2 ^ 53 < 2 ^ bit_length d * 2 ^ 53"
      using bit_length_bounds [OF d] by simp
    also have "\<dots> = 2 ^ (bit_length d + 53)" by (simp add: power_add)
    also have "\<dots> \<le> 2 ^ (bit_length n - 1)"
      using big by (intro power_increasing) simp_all
    also have "\<dots> \<le> n" using bit_length_bounds [OF n] by simp
    finally have "d * 2 ^ 53 < n" .
    then have "(of_int (d * 2 ^ 53) :: rat) < of_int n" by (simp only: of_int_less_iff)
    then have "(2 ^ 53 :: rat) < of_int n / of_int d"
      using d by (simp add: pos_less_divide_eq mult.commute)
    then show False using assms(2) x by simp
  qed
  have fl: "floor_log2 x = (if x < pow2 k then k - 1 else k)"
    by (simp add: floor_log2_def q k_def Let_def)
  show ?thesis
  proof (cases "x < pow2 k")
    case True
    then show ?thesis using fl k53 by simp
  next
    case False
    have "k \<noteq> 53"
    proof
      assume "k = 53"
      then have "pow2 k = 2 ^ 53" by (simp add: pow2_def)
      then show False using False assms(2) by simp
    qed
    then show ?thesis using fl False k53 by simp
  qed
qed

lemma round_half_even_lower: "of_int K \<le> y \<Longrightarrow> K \<le> round_half_even y"
proof -
  assume "of_int K \<le> y"
  then have "K \<le> \<lfloor>y\<rfloor>" by (simp add: le_floor_iff)
  then show ?thesis by (simp add: round_half_even_def Let_def)
qed

lemma round_half_even_upper: "y \<le> of_int K \<Longrightarrow> round_half_even y \<le> K"
proof -
  assume a: "y \<le> of_int K"
  then have f: "\<lfloor>y\<rfloor> \<le> K" by (simp add: floor_le_iff)
  show ?thesis
  proof (cases "y - of_int \<lfloor>y\<rfloor> < 1 / 2")
    case True
    then show ?thesis using f by (simp add: round_half_even_def Let_def)
  next
    case False
    then have "of_int \<lfloor>y\<rfloor> < y" by linarith
    then have "of_int \<lfloor>y\<rfloor> < (of_int K :: rat)" using a by linarith
    then have "\<lfloor>y\<rfloor> < K" by (simp only: of_int_less_iff)
    then show ?thesis by (simp add: round_half_even_def Let_def)
  qed
qed

lemma f64_round_between:
  assumes "0 < x" "x < 2 ^ 53" "of_int a \<le> x" "x \<le> of_int b"
  shows "of_int a \<le> f64_round x \<and> f64_round x \<le> of_int b"
proof -
  define q where "q = max (floor_log2 \<bar>x\<bar> - 52) (- 1074)"
  define s :: int where "s = 2 ^ nat (- q)"
  have ax: "\<bar>x\<bar> = x" "sgn x = 1" using assms(1) by simp_all
  have "floor_log2 x \<le> 52" using assms(1,2) by (rule floor_log2_small)
  then have q0: "q \<le> 0" by (simp add: q_def ax)
  have s0: "0 < s" by (simp add: s_def)
  have pq: "pow2 q = 1 / of_int s" using pow2_nonpos_exp [OF q0] by (simp add: s_def)
  define m where "m = round_half_even (x * of_int s)"
  have qx: "max (floor_log2 x - 52) (- 1074) = q" by (simp add: q_def ax)
  have fr: "f64_round x = of_int m / of_int s"
    using assms(1) by (simp add: f64_round_def Let_def ax qx pq m_def)
  have "of_int (a * s) \<le> x * of_int s" using assms(3) s0 by simp
  then have lo: "a * s \<le> m" unfolding m_def by (rule round_half_even_lower)
  have "x * of_int s \<le> of_int (b * s)" using assms(4) s0 by simp
  then have hi: "m \<le> b * s" unfolding m_def by (rule round_half_even_upper)
  have "(of_int (a * s) :: rat) \<le> of_int m" using lo by (simp only: of_int_le_iff)
  then have 1: "(of_int a :: rat) \<le> of_int m / of_int s"
    using s0 by (simp add: pos_le_divide_eq)
  have "(of_int m :: rat) \<le> of_int (b * s)" using hi by (simp only: of_int_le_iff)
  then have 2: "(of_int m :: rat) / of_int s \<le> of_int b"
    using s0 by (simp add: pos_divide_le_eq)
  from 1 2 show ?thesis by (simp add: fr)
qed

lemma f64_of_int_exact:
  assumes "0 \<le> n" "n < 2 ^ 53"
  shows "f64_of_int n = of_int n"
proof (cases "n = 0")
  case True
  then show ?thesis by (simp add: f64_of_int_def f64_round_def)
next
  case False
  then have "0 < (of_int n :: rat)" using assms(1) by simp
  moreover have "(of_int n :: rat) < 2 ^ 53"
    using assms(2) by (metis of_int_less_iff of_int_numeral of_int_power)
  ultimately have "of_int n \<le> f64_round (of_int n) \<and> f64_round (of_int n) \<le> of_int n"
    by (rule f64_round_between) simp_all
  then show ?thesis by (simp add: f64_of_int_def)
qed

lemma floor_f64_round:
  assumes "0 \<le> x" "x < 2 ^ 53"
  shows "\<lfloor>f64_round x\<rfloor> = \<lfloor>x\<rfloor> \<or> f64_round x = of_int (\<lfloor>x\<rfloor> + 1)"
proof (cases "x = 0")
  case True
  then show ?thesis by (simp add: f64_round_def)
next
  case False
  then have x: "0 < x" using assms(1) by simp
  have "of_int \<lfloor>x\<rfloor> \<le> x" "x \<le> of_int (\<lfloor>x\<rfloor> + 1)" by linarith+
  with x assms(2)
  have b: "of_int \<lfloor>x\<rfloor> \<le> f64_round x \<and> f64_round x \<le> of_int (\<lfloor>x\<rfloor> + 1)"
    by (rule f64_round_between)
  show ?thesis
  proof (cases "f64_round x = of_int (\<lfloor>x\<rfloor> + 1)")
    case True
    then show ?thesis by simp
  next
    case False
    then have "f64_round x < of_int (\<lfloor>x\<rfloor> + 1)" using b by linarith
    then have "\<lfloor>f64_round x\<rfloor> = \<lfloor>x\<rfloor>" using b by (intro floor_unique) simp_all
    then show ?thesis by simp
  qed
qed

lemma calculatePercentile_general:
  assumes "sortedLatencies \<noteq> []" "0 \<le> percentile"
    and "f64_mul (f64_of_int (int (length sortedLatencies))) percentile < 2 ^ 63"
  shows "calculatePercentile sortedLatencies percentile
    = Inr (sortedLatencies !
        min (nat \<lfloor>f64_mul (f64_of_int (int (length sortedLatencies))) percentile\<rfloor>)
            (length sortedLatencies - 1))"
proof -
  let ?x = "f64_mul (f64_of_int (int (length sortedLatencies))) percentile"
  have x0: "0 \<le> ?x" using assms(2) by (rule count_product_nonneg)
  then have f0: "0 \<le> \<lfloor>?x\<rfloor>" by simp
  have "\<lfloor>?x\<rfloor> < 2 ^ 63" using assms(3) by (simp add: floor_less_iff)
  moreover have "- (2 ^ 63) \<le> \<lfloor>?x\<rfloor>" using f0 by (rule order_trans [rotated]) simp
  ultimately have conv: "f64_to_int ?x = Some \<lfloor>?x\<rfloor>"
    using x0 by (simp add: f64_to_int_def)
  have n: "0 < length sortedLatencies" using assms(1) by simp
  show ?thesis
  proof (cases "\<lfloor>?x\<rfloor> \<ge> int (length sortedLatencies)")
    case True
    then have "min (nat \<lfloor>?x\<rfloor>) (length sortedLatencies - 1) = length sortedLatencies - 1"
      by simp
    moreover have "nat (int (length sortedLatencies) - 1) = length sortedLatencies - 1"
      by simp
    ultimately show ?thesis using True n conv
      by (simp add: calculatePercentile_def)
  next
    case False
    then have "min (nat \<lfloor>?x\<rfloor>) (length sortedLatencies - 1) = nat \<lfloor>?x\<rfloor>"
      using f0 by simp
    then show ?thesis using False n conv f0
      by (simp add: calculatePercentile_def)
  qed
qed


lemma f64_mul_count:
  assumes "n < 2 ^ 53"
  shows "f64_mul (f64_of_int (int n)) p = f64_round (of_nat n * p)"
proof -
  have "int n < 2 ^ 53" using assms by (metis of_nat_less_iff of_nat_numeral of_nat_power)
  then have "f64_of_int (int n) = of_int (int n)" by (intro f64_of_int_exact) simp_all
  then show ?thesis by (simp add: f64_mul_def)
qed

lemma f64_round_upper:
  assumes "0 \<le> x" "x < 2 ^ 53"
  shows "f64_round x \<le> of_int (\<lfloor>x\<rfloor> + 1)"
proof (cases "f64_round x = of_int (\<lfloor>x\<rfloor> + 1)")
  case True
  then show ?thesis by simp
next
  case False
  then have "\<lfloor>f64_round x\<rfloor> = \<lfloor>x\<rfloor>" using floor_f64_round [OF assms] by blast
  moreover have "f64_round x < of_int \<lfloor>f64_round x\<rfloor> + 1" by linarith
  ultimately show ?thesis by simp
qed

text \<open>
  C7, as stated: for every percentile \<open>p\<close> the element at index \<open>floor(p * count)\<close>
  is returned. On the samples 0, 1, ..., 99 the constant 0.57 returns the element
  at index 56, while \<open>floor(0.57 * 100)\<close> is 57: the \<open>float64\<close> nearest to 0.57 lies
  below it. On the samples 0, 1, ..., 199 the \<open>float64\<close> \<open>p\<close> nearest to 0.99
  returns the element at index 198, while \<open>floor(p * 200)\<close> is 197: the product is
  rounded up to 198.
\<close>

theorem calculatePercentile_floor_counterexample:
  "calculatePercentile (map of_nat [0..<100]) (f64_round (57 / 100)) = Inr 56
   \<and> map of_nat [0..<100] ! nat \<lfloor>(57 / 100 :: rat) * 100\<rfloor> = (57 :: int64)
   \<and> calculatePercentile (map of_nat [0..<200]) (f64_round (99 / 100)) = Inr 198
   \<and> map of_nat [0..<200] ! nat \<lfloor>f64_round (99 / 100) * 200\<rfloor> = (197 :: int64)"
proof (intro conjI)
  show "calculatePercentile (map of_nat [0..<100]) (f64_round (57 / 100)) = Inr 56"
    by code_simp
  show "map of_nat [0..<100] ! nat \<lfloor>(57 / 100 :: rat) * 100\<rfloor> = (57 :: int64)"
    by code_simp
  show "calculatePercentile (map of_nat [0..<200]) (f64_round (99 / 100)) = Inr 198"
    by code_simp
  show "map of_nat [0..<200] ! nat \<lfloor>f64_round (99 / 100) * 200\<rfloor> = (197 :: int64)"
    by code_simp
qed

text \<open>
  C7, amended: for a non-empty sample list and a \<open>float64\<close> percentile \<open>p \<ge> 0\<close>
  whose \<open>float64\<close> product with the count is below \<open>2^63\<close>, \<open>calculatePercentile\<close>
  returns the element at index \<open>floor(fl(count * p))\<close> clamped to \<open>count - 1\<close>,
  where \<open>fl\<close> rounds the exact product to the nearest \<open>float64\<close>. For fewer than
  \<open>2^53\<close> samples and \<open>count * p < 2^53\<close> that index is \<open>floor(count * p)\<close>, or
  one more when the product is rounded up to the next integer. On the samples
  10, 20, 30, 40, 50 the constants 0.50, 0.90 and 0.99 select the indices 2, 4
  and 4 and return 30, 50 and 50.
\<close>

theorem calculatePercentile_float_rank:
  "(sortedLatencies \<noteq> [] \<and> 0 \<le> percentile
      \<and> f64_mul (f64_of_int (int (length sortedLatencies))) percentile < 2 ^ 63
    \<longrightarrow> calculatePercentile sortedLatencies percentile
        = Inr (sortedLatencies !
            min (nat \<lfloor>f64_mul (f64_of_int (int (length sortedLatencies))) percentile\<rfloor>)
                (length sortedLatencies - 1)))
   \<and> (0 \<le> percentile \<and> length sortedLatencies < 2 ^ 53
      \<and> of_nat (length sortedLatencies) * percentile < 2 ^ 53
    \<longrightarrow> f64_mul (f64_of_int (int (length sortedLatencies))) percentile
        = f64_round (of_nat (length sortedLatencies) * percentile)
      \<and> f64_round (of_nat (length sortedLatencies) * percentile) < 2 ^ 63
      \<and> (\<lfloor>f64_round (of_nat (length sortedLatencies) * percentile)\<rfloor>
            = \<lfloor>of_nat (length sortedLatencies) * percentile\<rfloor>
         \<or> f64_round (of_nat (length sortedLatencies) * percentile)
            = of_int (\<lfloor>of_nat (length sortedLatencies) * percentile\<rfloor> + 1)))
   \<and> calculatePercentile [10, 20, 30, 40, 50] (f64_round (50 / 100)) = Inr 30
   \<and> calculatePercentile [10, 20, 30, 40, 50] (f64_round (90 / 100)) = Inr 50
   \<and> calculatePercentile [10, 20, 30, 40, 50] (f64_round (99 / 100)) = Inr 50
   \<and> \<lfloor>f64_mul (f64_of_int 5) (f64_round (50 / 100))\<rfloor> = 2
   \<and> \<lfloor>f64_mul (f64_of_int 5) (f64_round (90 / 100))\<rfloor> = 4
   \<and> \<lfloor>f64_mul (f64_of_int 5) (f64_round (99 / 100))\<rfloor> = 4"
proof (intro conjI impI)
  assume "sortedLatencies \<noteq> [] \<and> 0 \<le> percentile
      \<and> f64_mul (f64_of_int (int (length sortedLatencies))) percentile < 2 ^ 63"
  then show "calculatePercentile sortedLatencies percentile
        = Inr (sortedLatencies !
            min (nat \<lfloor>f64_mul (f64_of_int (int (length sortedLatencies))) percentile\<rfloor>)
                (length sortedLatencies - 1))"
    by (simp add: calculatePercentile_general)
next
  assume a: "0 \<le> percentile \<and> length sortedLatencies < 2 ^ 53
      \<and> of_nat (length sortedLatencies) * percentile < 2 ^ 53"
  let ?x = "of_nat (length sortedLatencies) * percentile :: rat"
  have x0: "0 \<le> ?x" using a by simp
  have x1: "?x < 2 ^ 53" using a by simp
  show "f64_mul (f64_of_int (int (length sortedLatencies))) percentile = f64_round ?x"
    using a by (intro f64_mul_count) simp
  have fl: "\<lfloor>?x\<rfloor> + 1 \<le> 2 ^ 53" using x1 by (simp add: floor_less_iff)
  have "f64_round ?x \<le> of_int (\<lfloor>?x\<rfloor> + 1)" using x0 x1 by (rule f64_round_upper)
  also have "(of_int (\<lfloor>?x\<rfloor> + 1) :: rat) \<le> of_int (2 ^ 53)"
    using fl by (simp only: of_int_le_iff)
  also have "(of_int (2 ^ 53) :: rat) < 2 ^ 63" by simp
  finally show "f64_round ?x < 2 ^ 63" .
  show "\<lfloor>f64_round ?x\<rfloor> = \<lfloor>?x\<rfloor> \<or> f64_round ?x = of_int (\<lfloor>?x\<rfloor> + 1)"
    using x0 x1 by (rule floor_f64_round)
next
  show "calculatePercentile [10, 20, 30, 40, 50] (f64_round (50 / 100)) = Inr 30"
    by code_simp
next
  show "calculatePercentile [10, 20, 30, 40, 50] (f64_round (90 / 100)) = Inr 50"
    by code_simp
next
  show "calculatePercentile [10, 20, 30, 40, 50] (f64_round (99 / 100)) = Inr 50"
    by code_simp
next
  show "\<lfloor>f64_mul (f64_of_int 5) (f64_round (50 / 100))\<rfloor> = 2" by code_simp
next
  show "\<lfloor>f64_mul (f64_of_int 5) (f64_round (90 / 100))\<rfloor> = 4" by code_simp
next
  show "\<lfloor>f64_mul (f64_of_int 5) (f64_round (99 / 100))\<rfloor> = 4" by code_simp
qed

theorem calculatePercentile_float_rank_witness:
  "calculatePercentile [10, 20, 30, 40, 50] (f64_round (90 / 100))
     = Inr ([10, 20, 30, 40, 50] !
         min (nat \<lfloor>f64_mul (f64_of_int (int (length [10, 20, 30, 40, 50 :: int64])))
                     (f64_round (90 / 100))\<rfloor>)
             (length [10, 20, 30, 40, 50 :: int64] - 1))
   \<and> f64_mul (f64_of_int (int (length [10, 20, 30, 40, 50 :: int64]))) (f64_round (90 / 100))
       = f64_round (of_nat (length [10, 20, 30, 40, 50 :: int64]) * f64_round (90 / 100))
   \<and> (\<lfloor>f64_round (of_nat (length [10, 20, 30, 40, 50 :: int64]) * f64_round (90 / 100))\<rfloor>
        = \<lfloor>of_nat (length [10, 20, 30, 40, 50 :: int64]) * f64_round (90 / 100)\<rfloor>
      \<or> f64_round (of_nat (length [10, 20, 30, 40, 50 :: int64]) * f64_round (90 / 100))
        = of_int (\<lfloor>of_nat (length [10, 20, 30, 40, 50 :: int64])
                    * f64_round (90 / 100)\<rfloor> + 1))"
proof -
  have 1: "[10, 20, 30, 40, 50 :: int64] \<noteq> []" by simp
  have 2: "0 \<le> f64_round (90 / 100)" by (rule f64_round_nonneg) simp
  have 3: "length [10, 20, 30, 40, 50 :: int64] < 2 ^ 53" by simp
  have 4: "of_nat (length [10, 20, 30, 40, 50 :: int64]) * f64_round (90 / 100) < 2 ^ 53"
    by code_simp
  have 5: "f64_mul (f64_of_int (int (length [10, 20, 30, 40, 50 :: int64])))
             (f64_round (90 / 100)) < 2 ^ 63"
    by code_simp
  note T = calculatePercentile_float_rank [of "[10, 20, 30, 40, 50]" "f64_round (90 / 100)"]
  from T [THEN conjunct1] 1 2 5 T [THEN conjunct2, THEN conjunct1] 3 4
  show ?thesis by blast
qed

lemma foldl_client_iteration_counts:
  "successRequests (foldl client_iteration st events)
      = successRequests st + int (successes events)
   \<and> fastRequests (foldl client_iteration st events)
      = fastRequests st + int (issued FastClient events)
   \<and> slowRequests (foldl client_iteration st events)
      = slowRequests st + int (issued SlowClient events)
   \<and> length (fastLatencies (foldl client_iteration st events))
      = length (fastLatencies st) + class_successes FastClient events
   \<and> length (slowLatencies (foldl client_iteration st events))
      = length (slowLatencies st) + class_successes SlowClient events"
proof (induction events arbitrary: st)
  case Nil
  then show ?case by (simp add: successes_def issued_def class_successes_def)
next
  case (Cons e events)
  obtain c out where e: "e = (c, out)" by (cases e)
  show ?case
    using Cons.IH [of "client_iteration st e"]
    by (cases c; cases out)
       (simp_all add: e successes_def issued_def class_successes_def
          makeFastRequest_def makeSlowRequest_def Let_def)
qed

text \<open>
  C9, amended: the overall throughput is the successful-request count divided by
  the elapsed duration; the throughput of a class is the number of requests the
  clients of that class issued, successful or not, divided by the elapsed
  duration, and its line is printed only when the class has a successful request.
\<close>

theorem throughput_counts:
  "throughput_lines (runLoadTest events) duration
     = [(''Overall'', f64_div (f64_of_int (int (successes events))) (Seconds duration))]
       @ (if 0 < class_successes FastClient events
          then [(''Fast Clients'',
                 f64_div (f64_of_int (int (issued FastClient events))) (Seconds duration))]
          else [])
       @ (if 0 < class_successes SlowClient events
          then [(''Slow Clients'',
                 f64_div (f64_of_int (int (issued SlowClient events))) (Seconds duration))]
          else [])"
  using foldl_client_iteration_counts [of new_Stats events]
  by (simp add: throughput_lines_def runLoadTest_def new_Stats_def Let_def)

text \<open>
  C9, as stated: the fast-client throughput is the fast clients' successful-request
  count divided by the duration. One fast client with one successful and one
  failed request in a run of one second is reported at 2 requests per second; its
  successful requests give 1.
\<close>

theorem fast_throughput_counterexample:
  "throughput_lines (runLoadTest sample_run) 1000000000
     = [(''Overall'', Some 1), (''Fast Clients'', Some 2)]
   \<and> f64_div (f64_of_int (int (class_successes FastClient sample_run))) (Seconds 1000000000)
     = Some 1"
  by code_simp

section \<open>Facts about the consistency verifier\<close>

lemma worker_step_shift:
  "worker_step (run\<lparr>run_totalRequests := run_totalRequests run + a,
                    run_failedRequests := run_failedRequests run + b\<rparr>) w
   = (worker_step run w)\<lparr>run_totalRequests := run_totalRequests (worker_step run w) + a,
                          run_failedRequests := run_failedRequests (worker_step run w) + b\<rparr>"
  by (cases "snd w") (simp_all add: worker_step_def Let_def)

lemma foldl_worker_step_shift:
  "foldl worker_step (run\<lparr>run_totalRequests := run_totalRequests run + a,
                          run_failedRequests := run_failedRequests run + b\<rparr>) work
   = (foldl worker_step run work)
       \<lparr>run_totalRequests := run_totalRequests (foldl worker_step run work) + a,
        run_failedRequests := run_failedRequests (foldl worker_step run work) + b\<rparr>"
proof (induction work arbitrary: run)
  case Nil
  then show ?case by simp
next
  case (Cons w work)
  show ?case
    by (simp only: foldl_Cons worker_step_shift Cons.IH)
qed

lemma worker_step_failed:
  "snd w = None \<Longrightarrow>
     worker_step run w = run\<lparr>run_totalRequests := run_totalRequests run + 1,
                              run_failedRequests := run_failedRequests run + 1\<rparr>"
  by (simp add: worker_step_def Let_def)

lemma foldl_worker_step_without:
  assumes "\<forall>w \<in> set work. fst w = u \<longrightarrow> snd w = None"
  shows "foldl worker_step run work
   = (foldl worker_step run (without_user u work))
       \<lparr>run_totalRequests :=
          run_totalRequests (foldl worker_step run (without_user u work))
            + int (requests_of u work),
        run_failedRequests :=
          run_failedRequests (foldl worker_step run (without_user u work))
            + int (requests_of u work)\<rparr>"
  using assms
proof (induction work arbitrary: run)
  case Nil
  then show ?case by (simp add: without_user_def requests_of_def)
next
  case (Cons w work)
  then have IH: "\<And>run. foldl worker_step run work
   = (foldl worker_step run (without_user u work))
       \<lparr>run_totalRequests :=
          run_totalRequests (foldl worker_step run (without_user u work))
            + int (requests_of u work),
        run_failedRequests :=
          run_failedRequests (foldl worker_step run (without_user u work))
            + int (requests_of u work)\<rparr>"
    by simp
  show ?case
  proof (cases "fst w = u")
    case True
    then have "snd w = None" using Cons.prems by simp
    then have step: "worker_step run w
        = run\<lparr>run_totalRequests := run_totalRequests run + 1,
               run_failedRequests := run_failedRequests run + 1\<rparr>"
      by (rule worker_step_failed)
    have wo: "without_user u (w # work) = without_user u work"
      using True by (simp add: without_user_def)
    have rq: "int (requests_of u (w # work)) = int (requests_of u work) + 1"
      using True by (simp add: requests_of_def)
    have "foldl worker_step run (w # work)
        = (foldl worker_step run work)
            \<lparr>run_totalRequests := run_totalRequests (foldl worker_step run work) + 1,
             run_failedRequests := run_failedRequests (foldl worker_step run work) + 1\<rparr>"
      by (simp only: foldl_Cons step foldl_worker_step_shift)
    then show ?thesis
      by (simp add: wo rq IH [of run])
  next
    case False
    then have wo: "without_user u (w # work) = w # without_user u work"
      by (simp add: without_user_def)
    have rq: "requests_of u (w # work) = requests_of u work"
      using False by (simp add: requests_of_def)
    show ?thesis
      by (simp add: wo rq IH [of "worker_step run w"])
  qed
qed

lemma worker_step_keys:
  "fst ` set (run_userPayloads (worker_step run w))
     = fst ` set (run_userPayloads run) \<union> (if snd w = None then {} else {fst w})"
  by (cases "snd w") (auto simp: worker_step_def Let_def dom_update)

lemma worker_step_distinct:
  "distinct (map fst (run_userPayloads run)) \<Longrightarrow>
     distinct (map fst (run_userPayloads (worker_step run w)))"
  by (cases "snd w") (simp_all add: worker_step_def Let_def distinct_update)

lemma foldl_worker_step_keys:
  "fst ` set (run_userPayloads (foldl worker_step run work))
     = fst ` set (run_userPayloads run) \<union> successful_users work"
proof (induction work arbitrary: run)
  case Nil
  then show ?case by (simp add: successful_users_def)
next
  case (Cons w work)
  have "successful_users (w # work)
      = (if snd w = None then {} else {fst w}) \<union> successful_users work"
    by (auto simp: successful_users_def)
  then show ?case
    by (simp add: Cons.IH worker_step_keys Un_assoc)
qed

lemma foldl_worker_step_distinct:
  "distinct (map fst (run_userPayloads run)) \<Longrightarrow>
     distinct (map fst (run_userPayloads (foldl worker_step run work)))"
  by (induction work arbitrary: run) (simp_all add: worker_step_distinct)

lemma analyze_user_fields:
  "TotalUsers (analyze_user r e) = TotalUsers r
   \<and> TotalRequests (analyze_user r e) = TotalRequests r
   \<and> FailedRequests (analyze_user r e) = FailedRequests r
   \<and> map alloc_UserID (UserAllocations (analyze_user r e))
       = map alloc_UserID (UserAllocations r) @ [fst e]
   \<and> ConsistentUsers (analyze_user r e) + InconsistentUsers (analyze_user r e)
       = ConsistentUsers r + InconsistentUsers r + 1"
  by (simp add: analyze_user_def Let_def)

lemma foldl_analyze_user_fields:
  "TotalUsers (foldl analyze_user r es) = TotalUsers r
   \<and> TotalRequests (foldl analyze_user r es) = TotalRequests r
   \<and> FailedRequests (foldl analyze_user r es) = FailedRequests r
   \<and> map alloc_UserID (UserAllocations (foldl analyze_user r es))
       = map alloc_UserID (UserAllocations r) @ map fst es
   \<and> ConsistentUsers (foldl analyze_user r es) + InconsistentUsers (foldl analyze_user r es)
       = ConsistentUsers r + InconsistentUsers r + int (length es)"
proof (induction es arbitrary: r)
  case Nil
  then show ?case by simp
next
  case (Cons e es)
  show ?case
    using Cons.IH [of "analyze_user r e"] analyze_user_fields [of r e]
    by simp
qed

lemma analyze_user_counters:
  "analyze_user (r\<lparr>TotalRequests := a, FailedRequests := b\<rparr>) e
     = (analyze_user r e)\<lparr>TotalRequests := a, FailedRequests := b\<rparr>"
  by (simp add: analyze_user_def Let_def)

lemma foldl_analyze_user_counters:
  "foldl analyze_user (r\<lparr>TotalRequests := a, FailedRequests := b\<rparr>) es
     = (foldl analyze_user r es)\<lparr>TotalRequests := a, FailedRequests := b\<rparr>"
  by (induction es arbitrary: r) (simp_all add: analyze_user_counters)

lemma analyzeResults_counters:
  "analyzeResults ups rpu d (t + k) s (f + k)
     = (analyzeResults ups rpu d t s f)
         \<lparr>TotalRequests := TotalRequests (analyzeResults ups rpu d t s f) + k,
          FailedRequests := FailedRequests (analyzeResults ups rpu d t s f) + k\<rparr>"
proof -
  define r0 where "r0 = \<lparr>TotalUsers = int (length ups), TotalRequests = t,
            SuccessfulRequests = s, FailedRequests = f,
            ConsistentUsers = 0, InconsistentUsers = 0, PayloadDistribution = [],
            UserAllocations = [], InconsistentDetails = [], TestDuration = d,
            RequestsPerSecond = 0, AllocationConsistency = 0\<rparr>"
  define r1 where "r1 = (if Seconds d > 0
                      then r0\<lparr>RequestsPerSecond := f64_quot (f64_of_int s) (Seconds d)\<rparr>
                      else r0)"
  define r2 where "r2 = foldl analyze_user r1 ups"
  define fin :: "TestResults \<Rightarrow> TestResults" where "fin = (\<lambda>r. if TotalUsers r > 0
         then r\<lparr>AllocationConsistency :=
                f64_mul (f64_quot (f64_of_int (ConsistentUsers r)) (f64_of_int (TotalUsers r)))
                        (f64_round 100)\<rparr>
         else r)"
  have base: "analyzeResults ups rpu d t s f = fin r2"
    by (simp add: analyzeResults_def Let_def r0_def r1_def r2_def fin_def)
  have r1': "(if Seconds d > 0
        then \<lparr>TotalUsers = int (length ups), TotalRequests = t + k,
            SuccessfulRequests = s, FailedRequests = f + k,
            ConsistentUsers = 0, InconsistentUsers = 0, PayloadDistribution = [],
            UserAllocations = [], InconsistentDetails = [], TestDuration = d,
            RequestsPerSecond = 0, AllocationConsistency = 0\<rparr>
             \<lparr>RequestsPerSecond := f64_quot (f64_of_int s) (Seconds d)\<rparr>
        else \<lparr>TotalUsers = int (length ups), TotalRequests = t + k,
            SuccessfulRequests = s, FailedRequests = f + k,
            ConsistentUsers = 0, InconsistentUsers = 0, PayloadDistribution = [],
            UserAllocations = [], InconsistentDetails = [], TestDuration = d,
            RequestsPerSecond = 0, AllocationConsistency = 0\<rparr>)
      = r1\<lparr>TotalRequests := t + k, FailedRequests := f + k\<rparr>"
    by (simp add: r1_def r0_def)
  have shifted: "analyzeResults ups rpu d (t + k) s (f + k)
      = fin (r2\<lparr>TotalRequests := t + k, FailedRequests := f + k\<rparr>)"
    by (simp only: analyzeResults_def Let_def r1' foldl_analyze_user_counters)
       (simp add: fin_def r2_def)
  have tr: "TotalRequests r2 = t" "FailedRequests r2 = f"
    using foldl_analyze_user_fields [of r1 ups] by (simp_all add: r2_def r1_def r0_def)
  have "fin (r2\<lparr>TotalRequests := t + k, FailedRequests := f + k\<rparr>)
      = (fin r2)\<lparr>TotalRequests := TotalRequests (fin r2) + k,
                  FailedRequests := FailedRequests (fin r2) + k\<rparr>"
    using tr by (simp add: fin_def)
  then show ?thesis by (simp only: base shifted)
qed


lemma analyzeResults_fields:
  "TotalUsers (analyzeResults ups rpu d t s f) = int (length ups)
   \<and> map alloc_UserID (UserAllocations (analyzeResults ups rpu d t s f)) = map fst ups
   \<and> ConsistentUsers (analyzeResults ups rpu d t s f)
       + InconsistentUsers (analyzeResults ups rpu d t s f) = int (length ups)"
proof -
  define r1 where "r1 = (if Seconds d > 0
        then \<lparr>TotalUsers = int (length ups), TotalRequests = t,
            SuccessfulRequests = s, FailedRequests = f,
            ConsistentUsers = 0, InconsistentUsers = 0, PayloadDistribution = [],
            UserAllocations = [], InconsistentDetails = [], TestDuration = d,
            RequestsPerSecond = 0, AllocationConsistency = 0\<rparr>
             \<lparr>RequestsPerSecond := f64_quot (f64_of_int s) (Seconds d)\<rparr>
        else \<lparr>TotalUsers = int (length ups), TotalRequests = t,
            SuccessfulRequests = s, FailedRequests = f,
            ConsistentUsers = 0, InconsistentUsers = 0, PayloadDistribution = [],
            UserAllocations = [], InconsistentDetails = [], TestDuration = d,
            RequestsPerSecond = 0, AllocationConsistency = 0\<rparr>)"
  have init: "TotalUsers r1 = int (length ups)" "UserAllocations r1 = []"
    "ConsistentUsers r1 = 0" "InconsistentUsers r1 = 0"
    by (simp_all add: r1_def)
  have "analyzeResults ups rpu d t s f
      = (if TotalUsers (foldl analyze_user r1 ups) > 0
         then (foldl analyze_user r1 ups)\<lparr>AllocationConsistency :=
                f64_mul (f64_quot (f64_of_int (ConsistentUsers (foldl analyze_user r1 ups)))
                                  (f64_of_int (TotalUsers (foldl analyze_user r1 ups))))
                        (f64_round 100)\<rparr>
         else foldl analyze_user r1 ups)"
    by (simp add: analyzeResults_def Let_def r1_def)
  then show ?thesis
    using foldl_analyze_user_fields [of r1 ups] init by simp
qed

text \<open>
  C10. Let no request of user \<open>u\<close> succeed. Then, whatever the order in which the
  map is visited, \<open>u\<close> has no entry among the user allocations; \<open>TotalUsers\<close> is
  the number of users with a successful request, of which \<open>u\<close> is none; every
  counted user is counted as consistent or as inconsistent; and the whole report
  (allocations, distribution, consistency rate, throughput) is the report of the
  run without the requests of \<open>u\<close>, except that these requests are added to the
  failed-request count and to the total of requests made.
\<close>

theorem unsuccessful_user_absent:
  assumes perm: "\<forall>m. mset (visit m) = mset m"
    and fail: "\<forall>w \<in> set work. fst w = u \<longrightarrow> snd w = None"
  shows "u \<notin> set (map alloc_UserID (UserAllocations (runAllocationTest visit work rpu d)))
   \<and> u \<notin> successful_users work
   \<and> TotalUsers (runAllocationTest visit work rpu d) = int (card (successful_users work))
   \<and> ConsistentUsers (runAllocationTest visit work rpu d)
       + InconsistentUsers (runAllocationTest visit work rpu d)
       = TotalUsers (runAllocationTest visit work rpu d)
   \<and> runAllocationTest visit work rpu d
       = (runAllocationTest visit (without_user u work) rpu d)
           \<lparr>TotalRequests :=
              TotalRequests (runAllocationTest visit (without_user u work) rpu d)
                + int (requests_of u work),
            FailedRequests :=
              FailedRequests (runAllocationTest visit (without_user u work) rpu d)
                + int (requests_of u work)\<rparr>"
proof -
  define run where "run = foldl worker_step new_AllocationRun work"
  define run' where "run' = foldl worker_step new_AllocationRun (without_user u work)"
  define m where "m = run_userPayloads run"
  have R: "runAllocationTest visit work rpu d
      = analyzeResults (visit m) rpu d
          (run_totalRequests run) (run_successRequests run) (run_failedRequests run)"
    by (simp add: runAllocationTest_def Let_def run_def m_def)
  have keys: "fst ` set m = successful_users work"
    using foldl_worker_step_keys [of new_AllocationRun work]
    by (simp add: m_def run_def new_AllocationRun_def)
  have dist: "distinct (map fst m)"
    unfolding m_def run_def
    by (rule foldl_worker_step_distinct) (simp add: new_AllocationRun_def)
  have vset: "set (visit m) = set m" using perm by (metis mset_eq_setD)
  have vlen: "length (visit m) = length m" using perm by (metis mset_eq_length)
  have nu: "u \<notin> successful_users work"
    using fail by (auto simp: successful_users_def)
  have card: "int (card (successful_users work)) = int (length m)"
    using distinct_card [OF dist] keys by simp
  note F = analyzeResults_fields [of "visit m" rpu d
      "run_totalRequests run" "run_successRequests run" "run_failedRequests run"]
  have 1: "u \<notin> set (map alloc_UserID (UserAllocations (runAllocationTest visit work rpu d)))"
    using F nu keys vset by (simp add: R)
  have 3: "TotalUsers (runAllocationTest visit work rpu d) = int (card (successful_users work))"
    using F card vlen by (simp add: R)
  have 4: "ConsistentUsers (runAllocationTest visit work rpu d)
       + InconsistentUsers (runAllocationTest visit work rpu d)
       = TotalUsers (runAllocationTest visit work rpu d)"
    using F by (simp add: R)
  have split: "run = run'\<lparr>run_totalRequests := run_totalRequests run' + int (requests_of u work),
                         run_failedRequests := run_failedRequests run' + int (requests_of u work)\<rparr>"
    unfolding run_def run'_def using fail by (rule foldl_worker_step_without)
  have same: "run_userPayloads run = run_userPayloads run'"
    "run_successRequests run = run_successRequests run'"
    "run_totalRequests run = run_totalRequests run' + int (requests_of u work)"
    "run_failedRequests run = run_failedRequests run' + int (requests_of u work)"
    by (subst split, simp)+
  have R': "runAllocationTest visit (without_user u work) rpu d
      = analyzeResults (visit m) rpu d
          (run_totalRequests run') (run_successRequests run') (run_failedRequests run')"
    by (simp add: runAllocationTest_def Let_def run'_def [symmetric] m_def same)
  have 5: "runAllocationTest visit work rpu d
       = (runAllocationTest visit (without_user u work) rpu d)
           \<lparr>TotalRequests :=
              TotalRequests (runAllocationTest visit (without_user u work) rpu d)
                + int (requests_of u work),
            FailedRequests :=
              FailedRequests (runAllocationTest visit (without_user u work) rpu d)
                + int (requests_of u work)\<rparr>"
    by (simp only: R R' same analyzeResults_counters)
  from 1 nu 3 4 5 show ?thesis by blast
qed

theorem unsuccessful_user_absent_witness:
  "''u2'' \<notin> set (map alloc_UserID
      (UserAllocations (runAllocationTest rev sample_work 2 1000000000)))
   \<and> TotalUsers (runAllocationTest rev sample_work 2 1000000000)
       = int (card (successful_users sample_work))
   \<and> runAllocationTest rev sample_work 2 1000000000
       = (runAllocationTest rev (without_user ''u2'' sample_work) 2 1000000000)
           \<lparr>TotalRequests :=
              TotalRequests (runAllocationTest rev (without_user ''u2'' sample_work) 2 1000000000)
                + int (requests_of ''u2'' sample_work),
            FailedRequests :=
              FailedRequests (runAllocationTest rev (without_user ''u2'' sample_work) 2 1000000000)
                + int (requests_of ''u2'' sample_work)\<rparr>"
proof -
  have p: "\<forall>m :: userPayloads. mset (rev m) = mset m" by simp
  have f: "\<forall>w \<in> set sample_work. fst w = ''u2'' \<longrightarrow> snd w = None"
    by (simp add: sample_work_def)
  from unsuccessful_user_absent [OF p f, of 2 1000000000]
  show ?thesis by blast
qed

end
